theory Spec2Isabelle
  imports Complex_Main "HOL-Library.Sublist"
begin

section \<open>Python values as the export script sees them\<close>

text \<open>
  \<^verbatim>\<open>Scripts/off_export.py\<close> works on the values that \<^verbatim>\<open>json.loads\<close> returns:
  \<^verbatim>\<open>None\<close>, booleans, integers, floats, strings, lists and dictionaries.

  A Python \<^verbatim>\<open>float\<close> is a finite number, a negative zero, an infinity or a NaN.
  The finite ones are kept as rationals (every finite double is one); the script never
  does arithmetic on them, it only classifies and compares them with zero.

  A Python \<^verbatim>\<open>str\<close> is a \<^typ>\<open>string\<close> whose characters are read as the code points
  U+0000 to U+00FF.  A dictionary is an association list in insertion order, looked up
  from the left.
\<close>

datatype pyfloat = Finite rat | NegZero | PInf | NInf | NaN

datatype json =
    JNull
  | JBool bool
  | JInt int
  | JFloat pyfloat
  | JStr string
  | JList "json list"
  | JDict "(string \<times> json) list"

text \<open>The exceptions the script can meet; all of them derive from \<^verbatim>\<open>Exception\<close>.\<close>

datatype exn =
    TypeError
  | ValueError
  | OverflowError
  | AttributeError
  | RuntimeError
  | URLError
  | OSError

text \<open>
  Three conversions belong to the Python runtime, not to the script: \<^verbatim>\<open>float(s)\<close> on a
  string (\<open>None\<close> is its \<^verbatim>\<open>ValueError\<close>), \<^verbatim>\<open>float(i)\<close> on an integer (\<open>None\<close>
  is its \<^verbatim>\<open>OverflowError\<close>) and the formatting \<^verbatim>\<open>f"{x}"\<close> of a float.  The script's
  functions take them as a parameter, so that every theorem holds whatever the runtime
  does on strings, on large integers and when it prints.
\<close>

record pyrt =
  float_of_str :: "string \<Rightarrow> pyfloat option"
  float_of_int :: "int \<Rightarrow> pyfloat option"
  format_float :: "pyfloat \<Rightarrow> string"

subsection \<open>Floats: \<^verbatim>\<open>math.isnan\<close>, \<^verbatim>\<open>math.isinf\<close>, \<^verbatim>\<open>x <= 0\<close>\<close>

fun isnan :: "pyfloat \<Rightarrow> bool" where
  "isnan NaN = True"
| "isnan _ = False"

fun isinf :: "pyfloat \<Rightarrow> bool" where
  "isinf PInf = True"
| "isinf NInf = True"
| "isinf _ = False"

definition is_finite :: "pyfloat \<Rightarrow> bool" where
  "is_finite f = (\<not> isnan f \<and> \<not> isinf f)"

text \<open>\<^verbatim>\<open>x <= 0\<close> on a float: false on NaN, true on negative zero.\<close>

fun le_zero :: "pyfloat \<Rightarrow> bool" where
  "le_zero (Finite q) = (q \<le> 0)"
| "le_zero NegZero = True"
| "le_zero PInf = False"
| "le_zero NInf = True"
| "le_zero NaN = False"

subsection \<open>Truth values, \<^verbatim>\<open>dict.get\<close>, iteration\<close>

text \<open>Python's truth test, as \<^verbatim>\<open>x or default\<close> and \<^verbatim>\<open>not x\<close> apply it.\<close>

fun truthy :: "json \<Rightarrow> bool" where
  "truthy JNull = False"
| "truthy (JBool b) = b"
| "truthy (JInt i) = (i \<noteq> 0)"
| "truthy (JFloat f) = (case f of Finite q \<Rightarrow> q \<noteq> 0 | NegZero \<Rightarrow> False | _ \<Rightarrow> True)"
| "truthy (JStr s) = (s \<noteq> [])"
| "truthy (JList xs) = (xs \<noteq> [])"
| "truthy (JDict kvs) = (kvs \<noteq> [])"

text \<open>\<^verbatim>\<open>x or d\<close>.\<close>

definition py_or :: "json \<Rightarrow> json \<Rightarrow> json" where
  "py_or x d = (if truthy x then x else d)"

text \<open>\<^verbatim>\<open>x.get(key)\<close>: only a dictionary has the method; a missing key reads as \<^verbatim>\<open>None\<close>.\<close>

fun py_get :: "json \<Rightarrow> string \<Rightarrow> exn + json" where
  "py_get (JDict kvs) k = Inr (case map_of kvs k of None \<Rightarrow> JNull | Some v \<Rightarrow> v)"
| "py_get _ k = Inl AttributeError"

text \<open>
  \<^verbatim>\<open>for x in v\<close>: a list gives its items, a string its characters, a dictionary its
  keys; nothing else is iterable.
\<close>

fun py_iter :: "json \<Rightarrow> exn + json list" where
  "py_iter (JList xs) = Inr xs"
| "py_iter (JStr s) = Inr (map (\<lambda>c. JStr [c]) s)"
| "py_iter (JDict kvs) = Inr (map (\<lambda>kv. JStr (fst kv)) kvs)"
| "py_iter _ = Inl TypeError"

subsection \<open>Strings: \<^verbatim>\<open>strip\<close>, \<^verbatim>\<open>lower\<close>, \<^verbatim>\<open>split\<close>, \<^verbatim>\<open>in\<close>\<close>

text \<open>The white space of \<^verbatim>\<open>str.strip()\<close> among the code points below 256.\<close>

definition is_space :: "char \<Rightarrow> bool" where
  "is_space c = (let n = of_char c :: nat in
     (9 \<le> n \<and> n \<le> 13) \<or> (28 \<le> n \<and> n \<le> 32) \<or> n = 133 \<or> n = 160)"

definition strip :: "string \<Rightarrow> string" where
  "strip s = rev (dropWhile is_space (rev (dropWhile is_space s)))"

text \<open>\<^verbatim>\<open>v.strip()\<close> on a value: only a string has the method.\<close>

fun py_strip :: "json \<Rightarrow> exn + string" where
  "py_strip (JStr s) = Inr (strip s)"
| "py_strip _ = Inl AttributeError"

text \<open>
  \<^verbatim>\<open>str.lower()\<close> below code point 256: A to Z, and the accented capitals U+00C0 to
  U+00DE without the multiplication sign U+00D7.
\<close>

definition lower_char :: "char \<Rightarrow> char" where
  "lower_char c = (let n = of_char c :: nat in
     if (65 \<le> n \<and> n \<le> 90) \<or> (192 \<le> n \<and> n \<le> 222 \<and> n \<noteq> 215)
     then char_of (n + 32) else c)"

definition lower :: "string \<Rightarrow> string" where
  "lower s = map lower_char s"

fun py_lower :: "json \<Rightarrow> exn + string" where
  "py_lower (JStr s) = Inr (lower s)"
| "py_lower _ = Inl AttributeError"

text \<open>\<^verbatim>\<open>s.split(",")\<close>: the pieces between the commas; the empty string gives one empty piece.\<close>

fun split_comma :: "string \<Rightarrow> string list" where
  "split_comma [] = [[]]"
| "split_comma (c # cs) =
     (if c = CHR '','' then [] # split_comma cs
      else (case split_comma cs of
              [] \<Rightarrow> [[c]]
            | w # ws \<Rightarrow> (c # w) # ws))"

text \<open>\<^verbatim>\<open>key in tag\<close> on strings: \<open>key\<close> occurs in \<open>tag\<close> as a contiguous piece.\<close>

fun py_in :: "string \<Rightarrow> string \<Rightarrow> bool" where
  "py_in k [] = (k = [])"
| "py_in k (c # cs) = (prefix k (c # cs) \<or> py_in k cs)"

section \<open>The numeric sanitizer \<^verbatim>\<open>to_float\<close>\<close>

text \<open>
  The built-in \<^verbatim>\<open>float(value)\<close> on a decoded JSON value: \<^verbatim>\<open>None\<close>, lists and
  dictionaries raise \<^verbatim>\<open>TypeError\<close>, a boolean is 0.0 or 1.0, a float is itself, and
  strings and integers go through the runtime's conversions.
\<close>

fun py_float :: "pyrt \<Rightarrow> json \<Rightarrow> exn + pyfloat" where
  "py_float rt JNull = Inl TypeError"
| "py_float rt (JBool b) = Inr (Finite (if b then 1 else 0))"
| "py_float rt (JInt i) =
     (case float_of_int rt i of None \<Rightarrow> Inl OverflowError | Some f \<Rightarrow> Inr f)"
| "py_float rt (JFloat f) = Inr f"
| "py_float rt (JStr s) =
     (case float_of_str rt s of None \<Rightarrow> Inl ValueError | Some f \<Rightarrow> Inr f)"
| "py_float rt (JList xs) = Inl TypeError"
| "py_float rt (JDict kvs) = Inl TypeError"

text \<open>
  \<^verbatim>\<open>
  def to_float(value: Any) -> float:
      try:
          f = float(value)
          if math.isnan(f) or math.isinf(f):
              return 0.0
          return f
      except Exception:
          return 0.0
  \<close>
  The result is a sum so that an exception leaving the function would show as \<open>Inl\<close>;
  the handler catches every exception of the body.
\<close>

definition to_float :: "pyrt \<Rightarrow> json \<Rightarrow> exn + pyfloat" where
  "to_float rt v =
     (case py_float rt v of
        Inr f \<Rightarrow> if isnan f \<or> isinf f then Inr (Finite 0) else Inr f
      | Inl e \<Rightarrow> Inr (Finite 0))"

text \<open>
  A finite excerpt of CPython's conversions, used to run the model on concrete records:
  \<^verbatim>\<open>float("12.5")\<close> is 12.5, \<^verbatim>\<open>float("nan")\<close> is NaN, \<^verbatim>\<open>float("abc")\<close> raises,
  an integer converts to its own value (exactly so up to \<open>2^53\<close> in size; the rounding
  of larger ones is left out) and raises from \<open>2^1024\<close> on, \<^verbatim>\<open>f"{100.0}"\<close> is
  \<^verbatim>\<open>100.0\<close>.  For other strings and for other floats to print its answers are
  placeholders; the theorems hold for every runtime and the excerpt only serves the
  concrete runs.
\<close>

definition excerpt_rt :: pyrt where
  "excerpt_rt =
     \<lparr> float_of_str = map_of
         [(''12.5'', Finite (25 / 2)), (''nan'', NaN), (''inf'', PInf), (''-inf'', NInf)],
       float_of_int = (\<lambda>i. if \<bar>i\<bar> < 2 ^ 1024 then Some (Finite (of_int i)) else None),
       format_float = (\<lambda>f. case map_of
         [(Finite 0, ''0.0''), (NegZero, ''-0.0''), (Finite 100, ''100.0''),
          (Finite (1 / 10), ''0.1''), (Finite (25 / 2), ''12.5''), (Finite 3, ''3.0'')] f of
           Some s \<Rightarrow> s | None \<Rightarrow> ''?'') \<rparr>"

section \<open>The category classifier \<^verbatim>\<open>map_category\<close>\<close>

text \<open>\<^verbatim>\<open>CATEGORY_MAP\<close>: a dictionary literal, iterated in the order it is written.\<close>

definition CATEGORY_MAP :: "(string \<times> string) list" where
  "CATEGORY_MAP =
    [(''meat'', ''meat''),
     (''beef'', ''meat''),
     (''poultry'', ''meat''),
     (''chicken'', ''meat''),
     (''turkey'', ''meat''),
     (''lamb'', ''meat''),
     (''pork'', ''meat''),
     (''dairy'', ''dairy''),
     (''milk'', ''dairy''),
     (''cheese'', ''dairy''),
     (''yogurt'', ''dairy''),
     (''grain'', ''grains''),
     (''cereal'', ''grains''),
     (''rice'', ''grains''),
     (''pasta'', ''grains''),
     (''bread'', ''bakery''),
     (''bakery'', ''bakery''),
     (''vegetable'', ''vegetables''),
     (''legume'', ''vegetables''),
     (''salad'', ''vegetables''),
     (''fruit'', ''fruits''),
     (''nut'', ''nuts''),
     (''beverage'', ''beverages''),
     (''drink'', ''beverages''),
     (''juice'', ''beverages''),
     (''snack'', ''snacks''),
     (''confectionery'', ''snacks''),
     (''chocolate'', ''snacks''),
     (''sweet'', ''desserts''),
     (''dessert'', ''desserts''),
     (''sauce'', ''condiments''),
     (''condiment'', ''condiments''),
     (''seafood'', ''seafood''),
     (''fish'', ''seafood''),
     (''fast-food'', ''fastfood''),
     (''turkish-cuisine'', ''turkish'')]"

text \<open>
  The inner loop \<^verbatim>\<open>for key, value in CATEGORY_MAP.items(): if key in tag: return value\<close>
  over a table: \<open>Some value\<close> is the \<^verbatim>\<open>return\<close>, \<open>None\<close> is the loop running out.
\<close>

fun scan_keys :: "(string \<times> string) list \<Rightarrow> string \<Rightarrow> string option" where
  "scan_keys [] tag = None"
| "scan_keys ((key, value) # kvs) tag =
     (if py_in key tag then Some value else scan_keys kvs tag)"

text \<open>The outer loop \<^verbatim>\<open>for tag in tags\<close>, and the final \<^verbatim>\<open>return "other"\<close>.\<close>

fun scan_tags :: "string list \<Rightarrow> string" where
  "scan_tags [] = ''other''"
| "scan_tags (tag # tags) =
     (case scan_keys CATEGORY_MAP tag of
        Some value \<Rightarrow> value
      | None \<Rightarrow> scan_tags tags)"

text \<open>
  \<^verbatim>\<open>[t.lower() for t in categories_tags]\<close>: the whole list is lower-cased before the
  scan starts, so an item without \<^verbatim>\<open>lower\<close> raises wherever it stands.
\<close>

fun lower_all :: "json list \<Rightarrow> exn + string list" where
  "lower_all [] = Inr []"
| "lower_all (t # ts) =
     (case py_lower t of
        Inl e \<Rightarrow> Inl e
      | Inr s \<Rightarrow> (case lower_all ts of Inl e \<Rightarrow> Inl e | Inr ss \<Rightarrow> Inr (s # ss)))"

text \<open>
  \<^verbatim>\<open>
  def map_category(categories_tags: List[str]) -> str:
      if not categories_tags:
          return "other"
      tags = [t.lower() for t in categories_tags]
      for tag in tags:
          for key, value in CATEGORY_MAP.items():
              if key in tag:
                  return value
      return "other"
  \<close>
  The argument is whatever the record holds under \<^verbatim>\<open>categories_tags\<close>.
\<close>

definition map_category :: "json \<Rightarrow> exn + string" where
  "map_category categories_tags =
     (if \<not> truthy categories_tags then Inr ''other''
      else case py_iter categories_tags of
             Inl e \<Rightarrow> Inl e
           | Inr items \<Rightarrow>
               (case lower_all items of
                  Inl e \<Rightarrow> Inl e
                | Inr tags \<Rightarrow> Inr (scan_tags tags)))"

text \<open>The category labels of the specification: the table's values and \<^verbatim>\<open>other\<close>.\<close>

definition CATEGORIES :: "string set" where
  "CATEGORIES =
     {''meat'', ''dairy'', ''grains'', ''bakery'', ''vegetables'', ''fruits'', ''nuts'',
      ''beverages'', ''snacks'', ''desserts'', ''condiments'', ''seafood'', ''fastfood'',
      ''turkish'', ''other''}"

section \<open>Brand extraction \<^verbatim>\<open>first_brand\<close>\<close>

text \<open>
  \<^verbatim>\<open>
  def first_brand(brands_field: str) -> str:
      if not brands_field:
          return ""
      parts = [p.strip() for p in brands_field.split(",") if p.strip()]
      return parts[0] if parts else ""
  \<close>
  Its only caller passes the result of \<^verbatim>\<open>.strip()\<close>, a string.
\<close>

definition first_brand :: "string \<Rightarrow> string" where
  "first_brand brands_field =
     (if brands_field = [] then []
      else let parts = map strip (filter (\<lambda>p. strip p \<noteq> []) (split_comma brands_field))
           in case parts of [] \<Rightarrow> [] | p # _ \<Rightarrow> p)"

section \<open>The query runner \<^verbatim>\<open>fetch_off_search\<close>\<close>

text \<open>
  What the network gives back to one search request: nothing (\<^verbatim>\<open>urlopen\<close> or
  \<^verbatim>\<open>read\<close> raises), or a status with a body, where the body is \<open>None\<close> when
  \<^verbatim>\<open>json.loads(resp.read().decode("utf-8"))\<close> raises its \<^verbatim>\<open>ValueError\<close>.
\<close>

datatype response = NoResponse | Response int "json option"

text \<open>\<^verbatim>\<open>data.get("products", [])\<close>: with a default for the missing key.\<close>

fun py_get_default :: "json \<Rightarrow> string \<Rightarrow> json \<Rightarrow> exn + json" where
  "py_get_default (JDict kvs) k d = Inr (case map_of kvs k of None \<Rightarrow> d | Some v \<Rightarrow> v)"
| "py_get_default _ k d = Inl AttributeError"

text \<open>
  \<^verbatim>\<open>
  with urllib.request.urlopen(req, timeout=15) as resp:
      if resp.status < 200 or resp.status >= 300:
          raise RuntimeError(f"OFF search failed: HTTP {resp.status}")
      data = json.loads(resp.read().decode("utf-8"))
      products = data.get("products", [])
      return products
  \<close>
  The query, the page size and the locale only shape the request; the function's result
  is determined by the response.
\<close>

fun fetch_off_search :: "response \<Rightarrow> exn + json" where
  "fetch_off_search NoResponse = Inl URLError"
| "fetch_off_search (Response status body) =
     (if status < 200 \<or> status \<ge> 300 then Inl RuntimeError
      else case body of
             None \<Rightarrow> Inl ValueError
           | Some data \<Rightarrow> py_get_default data ''products'' (JList []))"

section \<open>The driver: the loops of \<^verbatim>\<open>main\<close>\<close>

text \<open>
  Why a record is skipped (each \<^verbatim>\<open>continue\<close> of the inner loop), and what one pass of
  the inner loop's body does: it raises, it skips, or it appends a row and adds the code
  to \<^verbatim>\<open>seen\<close>.
\<close>

datatype reject = EmptyId | Duplicate | BlankMacros | EmptyName

datatype outcome = Raise exn | Skip reject | Emit string "string list"

text \<open>\<^verbatim>\<open>(p.get(key) or "").strip()\<close>.\<close>

definition get_stripped :: "json \<Rightarrow> string \<Rightarrow> exn + string" where
  "get_stripped p key =
     (case py_get p key of
        Inl e \<Rightarrow> Inl e
      | Inr v \<Rightarrow> py_strip (py_or v (JStr [])))"

text \<open>\<^verbatim>\<open>to_float(nutr.get(key))\<close>.\<close>

definition nutrient :: "pyrt \<Rightarrow> json \<Rightarrow> string \<Rightarrow> exn + pyfloat" where
  "nutrient rt nutr key =
     (case py_get nutr key of
        Inl e \<Rightarrow> Inl e
      | Inr v \<Rightarrow> to_float rt v)"

text \<open>
  Lines 160 to 164, the four sanitized macro values of a record:
  \<^verbatim>\<open>
  nutr = p.get("nutriments") or {}
  kcal = to_float(nutr.get("energy-kcal_100g"))
  prot = to_float(nutr.get("proteins_100g"))
  carb = to_float(nutr.get("carbohydrates_100g"))
  fat = to_float(nutr.get("fat_100g"))
  \<close>
\<close>

definition macros :: "pyrt \<Rightarrow> json \<Rightarrow> exn + (pyfloat \<times> pyfloat \<times> pyfloat \<times> pyfloat)" where
  "macros rt p =
    (case py_get p ''nutriments'' of Inl e \<Rightarrow> Inl e | Inr nv \<Rightarrow>
     let nutr = py_or nv (JDict []) in
    (case nutrient rt nutr ''energy-kcal_100g'' of Inl e \<Rightarrow> Inl e | Inr kcal \<Rightarrow>
    (case nutrient rt nutr ''proteins_100g'' of Inl e \<Rightarrow> Inl e | Inr prot \<Rightarrow>
    (case nutrient rt nutr ''carbohydrates_100g'' of Inl e \<Rightarrow> Inl e | Inr carb \<Rightarrow>
    (case nutrient rt nutr ''fat_100g'' of Inl e \<Rightarrow> Inl e | Inr fat \<Rightarrow>
       Inr (kcal, prot, carb, fat))))))"

text \<open>
  The body of \<^verbatim>\<open>for p in products\<close>, lines 155 to 188, in the order of the source:
  \<^verbatim>\<open>
  code = (p.get("code") or "").strip()
  if not code or code in seen:
      continue
  nutr = ...; kcal = ...; prot = ...; carb = ...; fat = ...
  if kcal <= 0 and (prot <= 0 and carb <= 0 and fat <= 0):
      continue
  name = (p.get("product_name") or "").strip()
  if not name:
      continue
  brand = first_brand((p.get("brands") or "").strip())
  categories_tags = p.get("categories_tags") or []
  category = map_category(categories_tags)
  rows.append([name, name, brand, f"{kcal}", f"{prot}", f"{carb}", f"{fat}", category])
  seen.add(code)
  \<close>
\<close>

definition loop_body :: "pyrt \<Rightarrow> string set \<Rightarrow> json \<Rightarrow> outcome" where
  "loop_body rt seen_codes p =
    (case get_stripped p ''code'' of Inl e \<Rightarrow> Raise e | Inr code \<Rightarrow>
     if code = [] then Skip EmptyId
     else if code \<in> seen_codes then Skip Duplicate
     else
    (case macros rt p of Inl e \<Rightarrow> Raise e | Inr (kcal, prot, carb, fat) \<Rightarrow>
     if le_zero kcal \<and> (le_zero prot \<and> le_zero carb \<and> le_zero fat) then Skip BlankMacros
     else
    (case get_stripped p ''product_name'' of Inl e \<Rightarrow> Raise e | Inr name \<Rightarrow>
     if name = [] then Skip EmptyName
     else
    (case get_stripped p ''brands'' of Inl e \<Rightarrow> Raise e | Inr brands \<Rightarrow>
     let brand = first_brand brands in
    (case py_get p ''categories_tags'' of Inl e \<Rightarrow> Raise e | Inr cv \<Rightarrow>
    (case map_category (py_or cv (JList [])) of Inl e \<Rightarrow> Raise e | Inr category \<Rightarrow>
       Emit code
         [name, name, brand,
          format_float rt kcal, format_float rt prot,
          format_float rt carb, format_float rt fat,
          category]))))))"

text \<open>
  The state of a run: the set \<^verbatim>\<open>seen\<close>, the list \<^verbatim>\<open>rows\<close>, and what was printed.
  \<open>'q\<close> is the type of the query terms.
\<close>

datatype 'q event = Warn 'q exn | Done nat string

record 'q state =
  seen :: "string set"
  rows :: "string list list"
  printed :: "'q event list"

text \<open>\<^verbatim>\<open>for p in products\<close>: an exception of the body leaves the loop and the program.\<close>

fun products_loop :: "pyrt \<Rightarrow> 'q state \<Rightarrow> json list \<Rightarrow> exn + 'q state" where
  "products_loop rt st [] = Inr st"
| "products_loop rt st (p # ps) =
     (case loop_body rt (seen st) p of
        Raise e \<Rightarrow> Inl e
      | Skip r \<Rightarrow> products_loop rt st ps
      | Emit code row \<Rightarrow>
          products_loop rt (st\<lparr>rows := rows st @ [row], seen := insert code (seen st)\<rparr>) ps)"

text \<open>
  \<^verbatim>\<open>
  for idx, q in enumerate(DEFAULT_QUERIES_TR):
      try:
          products = fetch_off_search(q, args.limit, args.lc)
      except Exception as e:
          print(f"WARN: query '{q}' failed: {e}")
          continue
      for p in products:
          ...
      time.sleep(0.5)
  \<close>
  Each query term comes with the response the network gave to its request.  The pause
  between terms has no effect on the state and is left out.
\<close>

fun queries_loop :: "pyrt \<Rightarrow> 'q state \<Rightarrow> ('q \<times> response) list \<Rightarrow> exn + 'q state" where
  "queries_loop rt st [] = Inr st"
| "queries_loop rt st ((q, resp) # qrs) =
     (case fetch_off_search resp of
        Inl e \<Rightarrow> queries_loop rt (st\<lparr>printed := printed st @ [Warn q e]\<rparr>) qrs
      | Inr products \<Rightarrow>
          (case py_iter products of
             Inl e \<Rightarrow> Inl e
           | Inr ps \<Rightarrow>
               (case products_loop rt st ps of
                  Inl e \<Rightarrow> Inl e
                | Inr st' \<Rightarrow> queries_loop rt st' qrs)))"

text \<open>\<^verbatim>\<open>seen: Set[str] = set()\<close> and \<^verbatim>\<open>rows: List[List[str]] = []\<close>.\<close>

definition init_state :: "'q state" where
  "init_state = \<lparr> seen = {}, rows = [], printed = [] \<rparr>"

section \<open>The tabular writer\<close>

text \<open>
  \<^verbatim>\<open>csv.writer(f)\<close> with the default dialect: fields joined by commas, a field holding a
  comma, a double quote, a carriage return or a line feed is quoted with its quotes
  doubled, a record of one empty field is written as two quotes, and every record ends
  with carriage return and line feed.
\<close>

definition dquote :: char where
  "dquote = CHR 0x22"

definition CRLF :: string where
  "CRLF = [CHR 0x0D, CHR 0x0A]"

definition needs_quote :: "string \<Rightarrow> bool" where
  "needs_quote s = (\<exists>c \<in> set s. c = CHR '','' \<or> c = dquote \<or> c = CHR 0x0D \<or> c = CHR 0x0A)"

definition csv_field :: "string \<Rightarrow> string" where
  "csv_field s =
     (if needs_quote s
      then [dquote] @ concat (map (\<lambda>c. if c = dquote then [c, c] else [c]) s) @ [dquote]
      else s)"

fun join_commas :: "string list \<Rightarrow> string" where
  "join_commas [] = []"
| "join_commas [f] = f"
| "join_commas (f # fs) = f @ [CHR '',''] @ join_commas fs"

definition writerow :: "string list \<Rightarrow> string" where
  "writerow cells =
     (if cells = [[]] then [dquote, dquote] else join_commas (map csv_field cells)) @ CRLF"

definition writerows :: "string list list \<Rightarrow> string" where
  "writerows rs = concat (map writerow rs)"

definition HEADER :: "string list" where
  "HEADER = [''nameEN'', ''nameTR'', ''brand'', ''calories'', ''protein'', ''carbs'', ''fat'',
             ''category'']"

text \<open>
  The file system: the text of each file, and the paths \<^verbatim>\<open>open(path, "w")\<close> cannot open.
  Opening for writing empties the file.
\<close>

record filesys =
  files :: "string \<rightharpoonup> string"
  unwritable :: "string set"

definition open_w :: "filesys \<Rightarrow> string \<Rightarrow> exn + filesys" where
  "open_w fs path =
     (if path \<in> unwritable fs then Inl OSError
      else Inr (fs\<lparr>files := (files fs)(path \<mapsto> [])\<rparr>))"

definition write_text :: "filesys \<Rightarrow> string \<Rightarrow> string \<Rightarrow> filesys" where
  "write_text fs path txt =
     fs\<lparr>files := (files fs)(path \<mapsto> (case files fs path of None \<Rightarrow> [] | Some old \<Rightarrow> old) @ txt)\<rparr>"

text \<open>The command line: \<^verbatim>\<open>--out\<close>, \<^verbatim>\<open>--limit\<close>, \<^verbatim>\<open>--lc\<close>.\<close>

record args =
  out :: string
  limit :: int
  lc :: string

text \<open>
  \<^verbatim>\<open>
  with open(args.out, "w", newline="", encoding="utf-8") as f:
      writer = csv.writer(f)
      writer.writerow(["nameEN","nameTR","brand","calories","protein","carbs","fat","category"])
      writer.writerows(rows)
  print(f"DONE: wrote {len(rows)} rows to {args.out}")
  \<close>
\<close>

definition write_csv :: "filesys \<Rightarrow> string \<Rightarrow> string list list \<Rightarrow> exn + filesys" where
  "write_csv fs path rs =
     (case open_w fs path of
        Inl e \<Rightarrow> Inl e
      | Inr fs1 \<Rightarrow> Inr (write_text (write_text fs1 path (writerow HEADER)) path (writerows rs)))"

text \<open>
  \<^verbatim>\<open>main\<close>: the loops from the empty state, then the file, then the summary line.  An
  exception anywhere outside the \<^verbatim>\<open>try\<close> ends the program before the file is opened.
\<close>

definition main :: "pyrt \<Rightarrow> args \<Rightarrow> ('q \<times> response) list \<Rightarrow> filesys
    \<Rightarrow> exn + (filesys \<times> 'q event list)" where
  "main rt a qrs fs =
     (case queries_loop rt init_state qrs of
        Inl e \<Rightarrow> Inl e
      | Inr st \<Rightarrow>
          (case write_csv fs (out a) (rows st) of
             Inl e \<Rightarrow> Inl e
           | Inr fs' \<Rightarrow> Inr (fs', printed st @ [Done (length (rows st)) (out a)])))"

section \<open>The vocabulary of the specification\<close>

text \<open>
  The definitions of this section are not code of the script.  They say, in the words of
  the specification, what the theorems below compare the script with.
\<close>

text \<open>
  The raw candidate record of the specification's data model: a dictionary whose
  identifier, display name and brand field are strings or absent, whose nutrient
  sub-record is a dictionary or absent, and whose tags are a list of strings or absent.
  Absent is a missing key or \<^verbatim>\<open>null\<close>.  The values inside the nutrient sub-record
  are not restricted.
\<close>

fun absent_or_str :: "json \<Rightarrow> bool" where
  "absent_or_str JNull = True"
| "absent_or_str (JStr s) = True"
| "absent_or_str _ = False"

fun absent_or_dict :: "json \<Rightarrow> bool" where
  "absent_or_dict JNull = True"
| "absent_or_dict (JDict kvs) = True"
| "absent_or_dict _ = False"

fun is_str :: "json \<Rightarrow> bool" where
  "is_str (JStr s) = True"
| "is_str _ = False"

fun absent_or_strs :: "json \<Rightarrow> bool" where
  "absent_or_strs JNull = True"
| "absent_or_strs (JList xs) = list_all is_str xs"
| "absent_or_strs _ = False"

definition entry :: "(string \<times> json) list \<Rightarrow> string \<Rightarrow> json" where
  "entry kvs k = (case map_of kvs k of None \<Rightarrow> JNull | Some v \<Rightarrow> v)"

fun raw_record :: "json \<Rightarrow> bool" where
  "raw_record (JDict kvs) =
     (absent_or_str (entry kvs ''code'')
      \<and> absent_or_str (entry kvs ''product_name'')
      \<and> absent_or_str (entry kvs ''brands'')
      \<and> absent_or_dict (entry kvs ''nutriments'')
      \<and> absent_or_strs (entry kvs ''categories_tags''))"
| "raw_record _ = False"

text \<open>
  The record normalizer of the specification decides on one record without looking at
  the identifiers seen so far: it is the loop body on an empty set.
\<close>

definition normalize :: "pyrt \<Rightarrow> json \<Rightarrow> outcome" where
  "normalize rt p = loop_body rt {} p"

text \<open>
  The records of a run in the order the driver meets them: those of each term whose
  fetch succeeded, term after term.
\<close>

fun fetched :: "('q \<times> response) list \<Rightarrow> json list" where
  "fetched [] = []"
| "fetched ((q, resp) # qrs) =
     (case fetch_off_search resp of
        Inl e \<Rightarrow> []
      | Inr products \<Rightarrow> (case py_iter products of Inl e \<Rightarrow> [] | Inr ps \<Rightarrow> ps))
     @ fetched qrs"

text \<open>The identifier and row of every record that the normalizer accepts, in order.\<close>

fun accepted :: "pyrt \<Rightarrow> json list \<Rightarrow> (string \<times> string list) list" where
  "accepted rt [] = []"
| "accepted rt (p # ps) =
     (case normalize rt p of
        Emit code row \<Rightarrow> (code, row) # accepted rt ps
      | _ \<Rightarrow> accepted rt ps)"

text \<open>Of the entries with the same key the first one is kept; the order is kept.\<close>

fun first_per_id :: "('k \<times> 'v) list \<Rightarrow> ('k \<times> 'v) list" where
  "first_per_id [] = []"
| "first_per_id (kv # kvs) = kv # filter (\<lambda>x. fst x \<noteq> fst kv) (first_per_id kvs)"

text \<open>
  A response of the expected shape: the fetch fails, or it gives a list of raw candidate
  records.
\<close>

definition well_formed_page :: "response \<Rightarrow> bool" where
  "well_formed_page resp =
     (case fetch_off_search resp of
        Inl e \<Rightarrow> True
      | Inr v \<Rightarrow> (case v of JList ps \<Rightarrow> list_all raw_record ps | _ \<Rightarrow> False))"

text \<open>A row of eight fields whose two name fields are not empty.\<close>

definition named_row :: "string list \<Rightarrow> bool" where
  "named_row row = (length row = 8 \<and> row ! 0 \<noteq> [] \<and> row ! 1 \<noteq> [])"

text \<open>The part of the state that decides the output table: \<^verbatim>\<open>seen\<close> and \<^verbatim>\<open>rows\<close>.\<close>

definition core :: "'q state \<Rightarrow> string set \<times> string list list" where
  "core s = (seen s, rows s)"

section \<open>Sample inputs\<close>

text \<open>
  Concrete records and responses on which the theorems are run: a record with an
  identifier, a name, a brand field and 100 kcal; a record with identifier \<^verbatim>\<open>X1\<close>
  and all four macro values but no \<^verbatim>\<open>product_name\<close>; and a successful response
  that carries a list of records.
\<close>

definition sample_record :: "string \<Rightarrow> string \<Rightarrow> string \<Rightarrow> json" where
  "sample_record code name brands =
     JDict [(''code'', JStr code), (''product_name'', JStr name), (''brands'', JStr brands),
            (''nutriments'', JDict [(''energy-kcal_100g'', JFloat (Finite 100))])]"

definition sample_nameless :: json where
  "sample_nameless =
     JDict [(''code'', JStr ''X1''), (''brands'', JStr ''Alfa''),
            (''nutriments'',
               JDict [(''energy-kcal_100g'', JFloat (Finite 100)),
                      (''proteins_100g'', JFloat (Finite 3)),
                      (''carbohydrates_100g'', JFloat (Finite 3)),
                      (''fat_100g'', JFloat (Finite 3))])]"

definition sample_page :: "json list \<Rightarrow> response" where
  "sample_page ps = Response 200 (Some (JDict [(''products'', JList ps)]))"

text \<open>
  A record \<^verbatim>\<open>X2\<close> with a name and given energy and protein values, the other two
  macro values being zero; the default command line; a file system in which the output
  file already exists.
\<close>

definition sample_macros :: "pyfloat \<Rightarrow> pyfloat \<Rightarrow> json" where
  "sample_macros kcal prot =
     JDict [(''code'', JStr ''X2''), (''product_name'', JStr ''Pirinc''),
            (''nutriments'',
               JDict [(''energy-kcal_100g'', JFloat kcal),
                      (''proteins_100g'', JFloat prot),
                      (''carbohydrates_100g'', JFloat (Finite 0)),
                      (''fat_100g'', JFloat (Finite 0))])]"

definition sample_args :: args where
  "sample_args = \<lparr> out = ''Nutrition/foods.csv'', limit = 60, lc = ''tr'' \<rparr>"

definition sample_fs :: filesys where
  "sample_fs = \<lparr> files = [''Nutrition/foods.csv'' \<mapsto> ''old text''], unwritable = {} \<rparr>"

section \<open>Theorems\<close>

subsection \<open>The numeric sanitizer\<close>

text \<open>
  Claim C4.  For every input value and every runtime, \<open>to_float\<close> returns (it has no
  error path) and what it returns is a finite float; it is 0.0 whenever the coercion
  \<^verbatim>\<open>float(value)\<close> raises and whenever the coerced value is NaN or infinite, and the
  coerced value itself otherwise.  So NaN, both infinities, a string the runtime does not
  read as a number, and an absent value (\<^verbatim>\<open>None\<close>) all give 0.0, while a finite
  float, a negative zero, and a string or an integer that the runtime converts to a finite
  float come back as that float.
\<close>

theorem to_float_total_finite:
  "(\<exists>f. to_float rt v = Inr f \<and> is_finite f
        \<and> (f = Finite 0 \<or> py_float rt v = Inr f))
   \<and> (\<forall>e. py_float rt v = Inl e \<longrightarrow> to_float rt v = Inr (Finite 0))
   \<and> (\<forall>f. py_float rt v = Inr f \<and> (isnan f \<or> isinf f) \<longrightarrow> to_float rt v = Inr (Finite 0))
   \<and> to_float rt (JFloat NaN) = Inr (Finite 0)
   \<and> to_float rt (JFloat PInf) = Inr (Finite 0)
   \<and> to_float rt (JFloat NInf) = Inr (Finite 0)
   \<and> to_float rt JNull = Inr (Finite 0)
   \<and> (\<forall>s. float_of_str rt s = None \<longrightarrow> to_float rt (JStr s) = Inr (Finite 0))
   \<and> (\<forall>f. py_float rt v = Inr f \<and> \<not> isnan f \<and> \<not> isinf f \<longrightarrow> to_float rt v = Inr f)
   \<and> (\<forall>q. to_float rt (JFloat (Finite q)) = Inr (Finite q))
   \<and> to_float rt (JFloat NegZero) = Inr NegZero
   \<and> (\<forall>s f. float_of_str rt s = Some f \<and> \<not> isnan f \<and> \<not> isinf f
         \<longrightarrow> to_float rt (JStr s) = Inr f)
   \<and> (\<forall>i f. float_of_int rt i = Some f \<and> \<not> isnan f \<and> \<not> isinf f
         \<longrightarrow> to_float rt (JInt i) = Inr f)"
proof -
  have total: "\<exists>f. to_float rt v = Inr f \<and> is_finite f
        \<and> (f = Finite 0 \<or> py_float rt v = Inr f)"
  proof (cases "py_float rt v")
    case (Inl e)
    then show ?thesis by (simp add: to_float_def is_finite_def)
  next
    case (Inr f)
    then show ?thesis by (cases f) (simp_all add: to_float_def is_finite_def)
  qed
  have fails: "\<forall>e. py_float rt v = Inl e \<longrightarrow> to_float rt v = Inr (Finite 0)"
    by (simp add: to_float_def)
  have nonfinite: "\<forall>f. py_float rt v = Inr f \<and> (isnan f \<or> isinf f)
      \<longrightarrow> to_float rt v = Inr (Finite 0)"
    by (auto simp: to_float_def)
  have strs: "\<forall>s. float_of_str rt s = None \<longrightarrow> to_float rt (JStr s) = Inr (Finite 0)"
    by (simp add: to_float_def)
  have keeps: "\<forall>f. py_float rt v = Inr f \<and> \<not> isnan f \<and> \<not> isinf f
      \<longrightarrow> to_float rt v = Inr f"
    by (simp add: to_float_def)
  have floats: "\<forall>q. to_float rt (JFloat (Finite q)) = Inr (Finite q)"
    by (simp add: to_float_def)
  have negzero: "to_float rt (JFloat NegZero) = Inr NegZero"
    by (simp add: to_float_def)
  have parsed: "\<forall>s f. float_of_str rt s = Some f \<and> \<not> isnan f \<and> \<not> isinf f
         \<longrightarrow> to_float rt (JStr s) = Inr f"
    by (simp add: to_float_def)
  have ints: "\<forall>i f. float_of_int rt i = Some f \<and> \<not> isnan f \<and> \<not> isinf f
         \<longrightarrow> to_float rt (JInt i) = Inr f"
    by (simp add: to_float_def)
  have specials: "to_float rt (JFloat NaN) = Inr (Finite 0)"
    "to_float rt (JFloat PInf) = Inr (Finite 0)"
    "to_float rt (JFloat NInf) = Inr (Finite 0)"
    "to_float rt JNull = Inr (Finite 0)"
    by (simp_all add: to_float_def)
  show ?thesis
    by (intro conjI total fails nonfinite specials strs keeps floats negzero parsed ints)
qed

text \<open>
  The theorem at work on a string that is no number, on the string \<^verbatim>\<open>nan\<close>, and on
  three values that are kept: the string \<^verbatim>\<open>12.5\<close>, the integer 100 and the float 0.1.
\<close>

theorem to_float_total_finite_witness:
  "float_of_str excerpt_rt ''abc'' = None
   \<and> py_float excerpt_rt (JStr ''abc'') = Inl ValueError
   \<and> to_float excerpt_rt (JStr ''abc'') = Inr (Finite 0)
   \<and> py_float excerpt_rt (JStr ''nan'') = Inr NaN \<and> isnan NaN
   \<and> to_float excerpt_rt (JStr ''nan'') = Inr (Finite 0)
   \<and> py_float excerpt_rt (JStr ''12.5'') = Inr (Finite (25 / 2))
   \<and> to_float excerpt_rt (JStr ''12.5'') = Inr (Finite (25 / 2))
   \<and> py_float excerpt_rt (JInt 100) = Inr (Finite 100)
   \<and> to_float excerpt_rt (JInt 100) = Inr (Finite 100)
   \<and> to_float excerpt_rt (JFloat (Finite (1 / 10))) = Inr (Finite (1 / 10))"
proof -
  have h4: "py_float excerpt_rt (JStr ''12.5'') = Inr (Finite (25 / 2))
      \<and> \<not> isnan (Finite (25 / 2)) \<and> \<not> isinf (Finite (25 / 2))"
    by (simp add: excerpt_rt_def)
  have h5: "py_float excerpt_rt (JInt 100) = Inr (Finite 100)
      \<and> \<not> isnan (Finite 100) \<and> \<not> isinf (Finite 100)"
    by (simp add: excerpt_rt_def)
  note keeps = conjunct2[THEN conjunct2, THEN conjunct2, THEN conjunct2, THEN conjunct2,
      THEN conjunct2, THEN conjunct2, THEN conjunct2]
  have k1: "to_float excerpt_rt (JStr ''12.5'') = Inr (Finite (25 / 2))"
    by (rule to_float_total_finite[of excerpt_rt "JStr ''12.5''", THEN keeps,
        THEN conjunct1, THEN spec, THEN mp, OF h4])
  have k2: "to_float excerpt_rt (JInt 100) = Inr (Finite 100)"
    by (rule to_float_total_finite[of excerpt_rt "JInt 100", THEN keeps,
        THEN conjunct1, THEN spec, THEN mp, OF h5])
  have k3: "to_float excerpt_rt (JFloat (Finite (1 / 10))) = Inr (Finite (1 / 10))"
    by (rule to_float_total_finite[of excerpt_rt "JNull", THEN keeps,
        THEN conjunct2, THEN conjunct1, THEN spec])
  have h1: "float_of_str excerpt_rt ''abc'' = None"
    by (simp add: excerpt_rt_def)
  have h2: "py_float excerpt_rt (JStr ''abc'') = Inl ValueError"
    by (simp add: excerpt_rt_def)
  have h3: "py_float excerpt_rt (JStr ''nan'') = Inr NaN \<and> (isnan NaN \<or> isinf NaN)"
    by (simp add: excerpt_rt_def)
  have "to_float excerpt_rt (JStr ''abc'') = Inr (Finite 0)"
    by (rule to_float_total_finite[of excerpt_rt "JStr ''abc''", THEN conjunct2,
        THEN conjunct1, THEN spec, THEN mp, OF h2])
  moreover have "to_float excerpt_rt (JStr ''nan'') = Inr (Finite 0)"
    by (rule to_float_total_finite[of excerpt_rt "JStr ''nan''", THEN conjunct2,
        THEN conjunct2, THEN conjunct1, THEN spec, THEN mp, OF h3])
  ultimately show ?thesis using h1 h2 h3 h4 h5 k1 k2 k3 by simp
qed

subsection \<open>The category classifier\<close>

lemma py_in_sublist: "py_in k t = sublist k t"
  by (induction t) (auto simp: sublist_Cons_right)

lemma scan_keys_None: "scan_keys kvs tag = None \<longleftrightarrow> (\<forall>kv \<in> set kvs. \<not> sublist (fst kv) tag)"
  by (induction kvs tag rule: scan_keys.induct) (auto simp: py_in_sublist)

lemma scan_keys_first:
  "\<forall>kv \<in> set kpre. \<not> sublist (fst kv) tag \<Longrightarrow> sublist k tag
   \<Longrightarrow> scan_keys (kpre @ (k, v) # kpost) tag = Some v"
  by (induction kpre tag rule: scan_keys.induct) (auto simp: py_in_sublist)

lemma scan_keys_Some_snd: "scan_keys kvs tag = Some v \<Longrightarrow> v \<in> snd ` set kvs"
  by (induction kvs tag rule: scan_keys.induct) (auto split: if_splits)

lemma scan_tags_none:
  "\<forall>t \<in> set tags. scan_keys CATEGORY_MAP t = None \<Longrightarrow> scan_tags tags = ''other''"
  by (induction tags) auto

lemma scan_tags_first:
  "\<forall>u \<in> set pre. scan_keys CATEGORY_MAP u = None \<Longrightarrow> scan_keys CATEGORY_MAP t = Some v
   \<Longrightarrow> scan_tags (pre @ t # post) = v"
  by (induction pre) auto

lemma CATEGORY_MAP_values: "snd ` set CATEGORY_MAP \<subseteq> CATEGORIES"
  by (simp add: CATEGORY_MAP_def CATEGORIES_def)

lemma scan_tags_closed: "scan_tags tags \<in> CATEGORIES"
proof (induction tags)
  case Nil
  show ?case by (simp add: CATEGORIES_def)
next
  case (Cons t tags)
  show ?case
  proof (cases "scan_keys CATEGORY_MAP t")
    case None
    with Cons show ?thesis by simp
  next
    case (Some v)
    then have "v \<in> snd ` set CATEGORY_MAP" by (rule scan_keys_Some_snd)
    with CATEGORY_MAP_values Some show ?thesis by auto
  qed
qed

lemma lower_all_strs: "lower_all (map JStr tags) = Inr (map lower tags)"
  by (induction tags) auto

lemma map_category_strs:
  "map_category (JList (map JStr tags)) = Inr (scan_tags (map lower tags))"
  by (cases tags) (simp_all add: map_category_def lower_all_strs)

text \<open>
  Claim C2.  On a list of tag strings the classifier lower-cases the tags and answers with
  the value of the first keyword, in table order, that occurs in the first tag, in list
  order, in which any keyword occurs: when \<open>tags = pre @ t # post\<close>, no keyword
  occurs in a tag of \<open>pre\<close>, the table is \<open>kpre @ (k, v) # kpost\<close>, no key of
  \<open>kpre\<close> occurs in \<open>t\<close> and \<open>k\<close> does, the answer is \<open>v\<close> whatever
  \<open>post\<close> and \<open>kpost\<close> hold.  When no keyword occurs in any tag, and when the list
  is empty, the answer is \<^verbatim>\<open>other\<close>.  The answer is always one of the fifteen
  category labels; \<^verbatim>\<open>en:chicken-breast\<close> gives \<^verbatim>\<open>meat\<close> and
  \<^verbatim>\<open>en:unknown-thing\<close> gives \<^verbatim>\<open>other\<close>.
\<close>

theorem map_category_first_match:
  "(\<exists>c. map_category (JList (map JStr tags)) = Inr c \<and> c \<in> CATEGORIES)
   \<and> ((\<forall>t \<in> set tags. \<forall>kv \<in> set CATEGORY_MAP. \<not> sublist (fst kv) (lower t))
        \<longrightarrow> map_category (JList (map JStr tags)) = Inr ''other'')
   \<and> (\<forall>pre t post kpre k v kpost.
         tags = pre @ t # post
         \<and> (\<forall>u \<in> set pre. \<forall>kv \<in> set CATEGORY_MAP. \<not> sublist (fst kv) (lower u))
         \<and> CATEGORY_MAP = kpre @ (k, v) # kpost
         \<and> (\<forall>kv \<in> set kpre. \<not> sublist (fst kv) (lower t))
         \<and> sublist k (lower t)
        \<longrightarrow> map_category (JList (map JStr tags)) = Inr v)
   \<and> map_category (JList []) = Inr ''other''
   \<and> map_category (JList [JStr ''en:chicken-breast'']) = Inr ''meat''
   \<and> map_category (JList [JStr ''en:unknown-thing'']) = Inr ''other''"
proof -
  have closed: "\<exists>c. map_category (JList (map JStr tags)) = Inr c \<and> c \<in> CATEGORIES"
    by (simp add: map_category_strs scan_tags_closed)
  have none: "(\<forall>t \<in> set tags. \<forall>kv \<in> set CATEGORY_MAP. \<not> sublist (fst kv) (lower t))
        \<longrightarrow> map_category (JList (map JStr tags)) = Inr ''other''"
    by (simp add: map_category_strs scan_tags_none scan_keys_None)
  have first: "map_category (JList (map JStr tags)) = Inr v"
    if "tags = pre @ t # post"
      and "\<forall>u \<in> set pre. \<forall>kv \<in> set CATEGORY_MAP. \<not> sublist (fst kv) (lower u)"
      and "CATEGORY_MAP = kpre @ (k, v) # kpost"
      and "\<forall>kv \<in> set kpre. \<not> sublist (fst kv) (lower t)"
      and "sublist k (lower t)"
    for pre t post kpre k v kpost
  proof -
    have "scan_keys CATEGORY_MAP (lower t) = Some v"
      using scan_keys_first[OF that(4) that(5), of v kpost] that(3) by simp
    moreover from that(2) have "\<forall>u \<in> set (map lower pre). scan_keys CATEGORY_MAP u = None"
      by (simp add: scan_keys_None)
    ultimately have "scan_tags (map lower pre @ lower t # map lower post) = v"
      by (rule scan_tags_first[rotated])
    then have "scan_tags (map lower tags) = v" using that(1) by simp
    then show ?thesis by (simp only: map_category_strs)
  qed
  have empty: "map_category (JList []) = Inr ''other''"
    by (simp add: map_category_def)
  have chicken: "map_category (JList [JStr ''en:chicken-breast'']) = Inr ''meat''"
    by code_simp
  have unknown: "map_category (JList [JStr ''en:unknown-thing'']) = Inr ''other''"
    by code_simp
  from closed none first empty chicken unknown show ?thesis by blast
qed

text \<open>
  The theorem at work: the second tag decides, by the fourth keyword of the table, after
  lower-casing; and two tags without any keyword give \<^verbatim>\<open>other\<close>.
\<close>

theorem map_category_first_match_witness:
  "sublist ''chicken'' (lower ''EN:Chicken-Breast'')
   \<and> list_all (\<lambda>kv. \<not> sublist (fst kv) (lower ''EN:Chicken-Breast''))
        [(''meat'', ''meat''), (''beef'', ''meat''), (''poultry'', ''meat'')]
   \<and> list_all (\<lambda>kv. \<not> sublist (fst kv) (lower ''en:Unknown'')) CATEGORY_MAP
   \<and> map_category (JList (map JStr [''en:Unknown'', ''EN:Chicken-Breast'', ''en:milk'']))
       = Inr ''meat''
   \<and> map_category (JList (map JStr [''en:Unknown'', ''tr:bilinmeyen''])) = Inr ''other''"
proof -
  have k: "sublist ''chicken'' (lower ''EN:Chicken-Breast'')"
    unfolding py_in_sublist[symmetric] by code_simp
  have kpre: "\<forall>kv \<in> set [(''meat'', ''meat''), (''beef'', ''meat''), (''poultry'', ''meat'')].
        \<not> sublist (fst kv) (lower ''EN:Chicken-Breast'')"
    unfolding py_in_sublist[symmetric] by code_simp
  have pre: "\<forall>u \<in> set [''en:Unknown'']. \<forall>kv \<in> set CATEGORY_MAP. \<not> sublist (fst kv) (lower u)"
    unfolding py_in_sublist[symmetric] by code_simp
  have none: "\<forall>t \<in> set [''en:Unknown'', ''tr:bilinmeyen'']. \<forall>kv \<in> set CATEGORY_MAP. \<not> sublist (fst kv) (lower t)"
    unfolding py_in_sublist[symmetric] by code_simp
  have split: "CATEGORY_MAP = [(''meat'', ''meat''), (''beef'', ''meat''), (''poultry'', ''meat'')]
      @ (''chicken'', ''meat'') # drop 4 CATEGORY_MAP"
    by (simp add: CATEGORY_MAP_def)
  have tags: "[''en:Unknown'', ''EN:Chicken-Breast'', ''en:milk'']
      = [''en:Unknown''] @ ''EN:Chicken-Breast'' # [''en:milk'']"
    by simp
  note first = map_category_first_match[of "[''en:Unknown'', ''EN:Chicken-Breast'', ''en:milk'']",
      THEN conjunct2, THEN conjunct2, THEN conjunct1, rule_format,
      of "[''en:Unknown'']" "''EN:Chicken-Breast''" "[''en:milk'']"
         "[(''meat'', ''meat''), (''beef'', ''meat''), (''poultry'', ''meat'')]"
         "''chicken''" "''meat''" "drop 4 CATEGORY_MAP"]
  have "map_category (JList (map JStr [''en:Unknown'', ''EN:Chicken-Breast'', ''en:milk'']))
      = Inr ''meat''"
    by (rule first) (intro conjI tags pre split kpre k)
  moreover
  have "map_category (JList (map JStr [''en:Unknown'', ''tr:bilinmeyen''])) = Inr ''other''"
    by (rule map_category_first_match[of "[''en:Unknown'', ''tr:bilinmeyen'']",
      THEN conjunct2, THEN conjunct1, THEN mp, OF none])
  ultimately show ?thesis using k kpre pre by (simp add: list_all_iff)
qed

subsection \<open>The loop body on the records of the data model\<close>

lemma get_stripped_raw:
  "absent_or_str (entry kvs k) \<Longrightarrow>
   get_stripped (JDict kvs) k = Inr (case entry kvs k of JStr s \<Rightarrow> strip s | _ \<Rightarrow> [])"
  by (cases "entry kvs k") (auto simp: get_stripped_def entry_def py_or_def strip_def)

lemma to_float_Inr: "\<exists>f. to_float rt v = Inr f"
  by (auto simp: to_float_def split: sum.splits)

lemma nutrient_dict: "\<exists>f. nutrient rt (JDict kvs) k = Inr f"
  by (simp add: nutrient_def to_float_Inr)

lemma macros_raw:
  assumes "absent_or_dict (entry kvs ''nutriments'')"
  shows "\<exists>m. macros rt (JDict kvs) = Inr m"
proof -
  have "\<exists>d. py_or (entry kvs ''nutriments'') (JDict []) = JDict d"
    using assms by (cases "entry kvs ''nutriments''") (simp_all add: py_or_def)
  then obtain d where d: "py_or (entry kvs ''nutriments'') (JDict []) = JDict d" ..
  obtain kcal where 1: "nutrient rt (JDict d) ''energy-kcal_100g'' = Inr kcal"
    using nutrient_dict by blast
  obtain prot where 2: "nutrient rt (JDict d) ''proteins_100g'' = Inr prot"
    using nutrient_dict by blast
  obtain carb where 3: "nutrient rt (JDict d) ''carbohydrates_100g'' = Inr carb"
    using nutrient_dict by blast
  obtain fat where 4: "nutrient rt (JDict d) ''fat_100g'' = Inr fat"
    using nutrient_dict by blast
  have "py_get (JDict kvs) ''nutriments'' = Inr (entry kvs ''nutriments'')"
    by (simp add: entry_def)
  with d 1 2 3 4 show ?thesis
    by (simp add: macros_def)
qed

lemma lower_all_strs': "list_all is_str xs \<Longrightarrow> \<exists>ts. lower_all xs = Inr ts"
proof (induction xs)
  case Nil
  show ?case by simp
next
  case (Cons x xs)
  then obtain s where "x = JStr s" by (cases x) auto
  with Cons show ?case by auto
qed

lemma map_category_raw:
  "absent_or_strs v \<Longrightarrow> \<exists>c. map_category (py_or v (JList [])) = Inr c"
proof (cases v)
  case (JList xs)
  assume "absent_or_strs v"
  with JList have "list_all is_str xs" by simp
  then obtain ts where "lower_all xs = Inr ts" using lower_all_strs' by blast
  with JList show ?thesis by (cases xs) (simp_all add: map_category_def py_or_def)
qed (auto simp: map_category_def py_or_def)

lemma raw_record_parts:
  assumes "raw_record p"
  obtains code name brands kcal prot carb fat cv cat where
    "get_stripped p ''code'' = Inr code"
    and "macros rt p = Inr (kcal, prot, carb, fat)"
    and "get_stripped p ''product_name'' = Inr name"
    and "get_stripped p ''brands'' = Inr brands"
    and "py_get p ''categories_tags'' = Inr cv"
    and "map_category (py_or cv (JList [])) = Inr cat"
proof -
  from assms obtain kvs where p: "p = JDict kvs" by (cases p) auto
  with assms have c: "absent_or_str (entry kvs ''code'')"
    and n: "absent_or_str (entry kvs ''product_name'')"
    and b: "absent_or_str (entry kvs ''brands'')"
    and m: "absent_or_dict (entry kvs ''nutriments'')"
    and t: "absent_or_strs (entry kvs ''categories_tags'')"
    by simp_all
  obtain code where code: "get_stripped p ''code'' = Inr code"
    using get_stripped_raw[OF c] p by blast
  obtain name where name: "get_stripped p ''product_name'' = Inr name"
    using get_stripped_raw[OF n] p by blast
  obtain brands where brands: "get_stripped p ''brands'' = Inr brands"
    using get_stripped_raw[OF b] p by blast
  obtain kcal prot carb fat where mac: "macros rt p = Inr (kcal, prot, carb, fat)"
    using macros_raw[OF m, of rt] p by (metis prod_cases4)
  have cv: "py_get p ''categories_tags'' = Inr (entry kvs ''categories_tags'')"
    using p by (simp add: entry_def)
  obtain cat where cat: "map_category (py_or (entry kvs ''categories_tags'') (JList [])) = Inr cat"
    using map_category_raw[OF t] by blast
  from code mac name brands cv cat show thesis by (rule that)
qed

lemma loop_body_of_parts:
  assumes "get_stripped p ''code'' = Inr code"
    and "macros rt p = Inr (kcal, prot, carb, fat)"
    and "get_stripped p ''product_name'' = Inr name"
    and "get_stripped p ''brands'' = Inr brands"
    and "py_get p ''categories_tags'' = Inr cv"
    and "map_category (py_or cv (JList [])) = Inr cat"
  shows "loop_body rt S p =
    (if code = [] then Skip EmptyId
     else if code \<in> S then Skip Duplicate
     else if le_zero kcal \<and> le_zero prot \<and> le_zero carb \<and> le_zero fat then Skip BlankMacros
     else if name = [] then Skip EmptyName
     else Emit code [name, name, first_brand brands, format_float rt kcal,
            format_float rt prot, format_float rt carb, format_float rt fat, cat])"
  using assms by (simp add: loop_body_def)

text \<open>
  Claim C8.  On every raw candidate record of the data model (identifier, name and brand
  each a string or absent, nutrient sub-record a dictionary or absent with values of any
  shape, tags a list of strings or absent) the loop body never raises: it skips the
  record, or it emits a row of eight fields together with the record's trimmed
  identifier.
\<close>

theorem normalizer_never_raises:
  assumes "raw_record p"
  shows "(\<exists>r. loop_body rt seen_codes p = Skip r)
       \<or> (\<exists>code row. loop_body rt seen_codes p = Emit code row
             \<and> get_stripped p ''code'' = Inr code \<and> length row = 8)"
proof -
  from assms obtain code name brands kcal prot carb fat cv cat where
    parts: "get_stripped p ''code'' = Inr code"
      "macros rt p = Inr (kcal, prot, carb, fat)"
      "get_stripped p ''product_name'' = Inr name"
      "get_stripped p ''brands'' = Inr brands"
      "py_get p ''categories_tags'' = Inr cv"
      "map_category (py_or cv (JList [])) = Inr cat"
    by (rule raw_record_parts[of p rt])
  show ?thesis
    unfolding loop_body_of_parts[OF parts] using parts(1) by simp
qed

text \<open>
  The theorem at work on the record with no field at all and on a full record.
\<close>

theorem normalizer_never_raises_witness:
  "raw_record (JDict [])
   \<and> ((\<exists>r. loop_body excerpt_rt {} (JDict []) = Skip r)
        \<or> (\<exists>code row. loop_body excerpt_rt {} (JDict []) = Emit code row
              \<and> get_stripped (JDict []) ''code'' = Inr code \<and> length row = 8))
   \<and> loop_body excerpt_rt {} (JDict []) = Skip EmptyId
   \<and> raw_record (sample_record ''X1'' ''Sut'' ''Alfa, Beta'')
   \<and> ((\<exists>r. loop_body excerpt_rt {} (sample_record ''X1'' ''Sut'' ''Alfa, Beta'') = Skip r)
        \<or> (\<exists>code row.
              loop_body excerpt_rt {} (sample_record ''X1'' ''Sut'' ''Alfa, Beta'') = Emit code row
              \<and> get_stripped (sample_record ''X1'' ''Sut'' ''Alfa, Beta'') ''code'' = Inr code
              \<and> length row = 8))
   \<and> loop_body excerpt_rt {} (sample_record ''X1'' ''Sut'' ''Alfa, Beta'')
       = Emit ''X1'' [''Sut'', ''Sut'', ''Alfa'', ''100.0'', ''0.0'', ''0.0'', ''0.0'', ''other'']"
proof -
  have r1: "raw_record (JDict [])"
    by (simp add: entry_def)
  have r2: "raw_record (sample_record ''X1'' ''Sut'' ''Alfa, Beta'')"
    by (simp add: sample_record_def entry_def)
  have e1: "loop_body excerpt_rt {} (JDict []) = Skip EmptyId"
    by code_simp
  have e2: "loop_body excerpt_rt {} (sample_record ''X1'' ''Sut'' ''Alfa, Beta'')
       = Emit ''X1'' [''Sut'', ''Sut'', ''Alfa'', ''100.0'', ''0.0'', ''0.0'', ''0.0'', ''other'']"
    by code_simp
  from normalizer_never_raises[OF r1, of excerpt_rt "{}"]
       normalizer_never_raises[OF r2, of excerpt_rt "{}"] r1 r2 e1 e2
  show ?thesis by simp
qed

text \<open>
  The hypothesis is needed: outside the data model the body can raise.  A record whose
  \<^verbatim>\<open>code\<close> is the number 5 has no \<^verbatim>\<open>strip\<close>.
\<close>

lemma loop_body_numeric_code:
  "loop_body rt S (JDict [(''code'', JInt 5)]) = Raise AttributeError"
  by (simp add: loop_body_def get_stripped_def py_or_def)

subsection \<open>Deduplication\<close>

lemma loop_body_cases:
  "(\<exists>e. loop_body rt S p = Raise e) \<or> (\<exists>r. loop_body rt S p = Skip r)
   \<or> (\<exists>code row. loop_body rt S p = Emit code row)"
  by (cases "loop_body rt S p") auto

lemma loop_body_Emit_iff:
  "loop_body rt S p = Emit code row \<longleftrightarrow> normalize rt p = Emit code row \<and> code \<notin> S"
  by (auto simp: loop_body_def normalize_def split: sum.splits prod.splits if_splits)

lemma loop_body_EmitD:
  assumes "loop_body rt S p = Emit code row"
  shows "code \<notin> S" and "code \<noteq> []" and "get_stripped p ''code'' = Inr code"
    and "length row = 8" and "row ! 0 \<noteq> []" and "row ! 1 \<noteq> []"
    and "get_stripped p ''product_name'' = Inr (row ! 0)"
  using assms
  by (auto simp: loop_body_def Let_def split: sum.splits prod.splits if_splits)

lemma first_per_id_filter:
  "filter (\<lambda>x. P (fst x)) (first_per_id xs) = first_per_id (filter (\<lambda>x. P (fst x)) xs)"
proof (induction xs)
  case Nil
  show ?case by simp
next
  case (Cons kv kvs)
  show ?case
  proof (cases "P (fst kv)")
    case True
    have "filter (\<lambda>x. P (fst x)) (filter (\<lambda>x. fst x \<noteq> fst kv) (first_per_id kvs))
        = filter (\<lambda>x. fst x \<noteq> fst kv) (filter (\<lambda>x. P (fst x)) (first_per_id kvs))"
      by (simp add: conj_commute)
    with True Cons show ?thesis by simp
  next
    case False
    have "filter (\<lambda>x. P (fst x)) (filter (\<lambda>x. fst x \<noteq> fst kv) (first_per_id kvs))
        = filter (\<lambda>x. P (fst x)) (first_per_id kvs)"
      using False by (auto intro: filter_cong)
    with False Cons show ?thesis by simp
  qed
qed

lemma first_per_id_append:
  "first_per_id (xs @ ys)
     = first_per_id xs @ filter (\<lambda>x. fst x \<notin> fst ` set xs) (first_per_id ys)"
proof (induction xs)
  case Nil
  show ?case by simp
next
  case (Cons kv kvs)
  have "filter (\<lambda>x. fst x \<noteq> fst kv) (filter (\<lambda>x. fst x \<notin> fst ` set kvs) (first_per_id ys))
      = filter (\<lambda>x. fst x \<notin> fst ` set (kv # kvs)) (first_per_id ys)"
    by (auto intro: filter_cong)
  with Cons show ?case by simp
qed

lemma first_per_id_subset: "set (first_per_id xs) \<subseteq> set xs"
  by (induction xs) auto

lemma first_per_id_keys: "fst ` set (first_per_id xs) = fst ` set xs"
proof (induction xs)
  case Nil
  show ?case by simp
next
  case (Cons kv kvs)
  have "fst ` set (filter (\<lambda>x. fst x \<noteq> fst kv) (first_per_id kvs))
      = fst ` set (first_per_id kvs) - {fst kv}"
    by auto
  with Cons show ?case by auto
qed

lemma first_per_id_distinct: "distinct (map fst (first_per_id xs))"
proof (induction xs)
  case Nil
  show ?case by simp
next
  case (Cons kv kvs)
  then have "distinct (map fst (filter (\<lambda>x. fst x \<noteq> fst kv) (first_per_id kvs)))"
    by (simp add: distinct_map_filter)
  then show ?case by auto
qed

lemma map_of_filter_other:
  "k \<noteq> k' \<Longrightarrow> map_of (filter (\<lambda>x. fst x \<noteq> k') xs) k = map_of xs k"
  by (induction xs) auto

lemma first_per_id_map_of: "map_of (first_per_id xs) = map_of xs"
proof (induction xs)
  case Nil
  show ?case by simp
next
  case (Cons kv kvs)
  show ?case
  proof
    fix k
    show "map_of (first_per_id (kv # kvs)) k = map_of (kv # kvs) k"
    proof (cases "k = fst kv")
      case True
      then show ?thesis by (cases kv) simp
    next
      case False
      then have "map_of (filter (\<lambda>x. fst x \<noteq> fst kv) (first_per_id kvs)) k
          = map_of (first_per_id kvs) k"
        by (rule map_of_filter_other)
      with False Cons show ?thesis by (cases kv) simp
    qed
  qed
qed

lemma accepted_append: "accepted rt (xs @ ys) = accepted rt xs @ accepted rt ys"
  by (induction xs) (auto split: outcome.splits)

lemma products_loop_rows:
  "products_loop rt st ps = Inr st' \<Longrightarrow>
     rows st' = rows st @ map snd (first_per_id (filter (\<lambda>x. fst x \<notin> seen st) (accepted rt ps)))
   \<and> seen st' = seen st \<union> fst ` set (accepted rt ps)
   \<and> printed st' = printed st"
proof (induction ps arbitrary: st)
  case Nil
  then show ?case by simp
next
  case (Cons p ps)
  show ?case
  proof (cases "loop_body rt (seen st) p")
    case (Raise e)
    with Cons.prems show ?thesis by simp
  next
    case (Skip r)
    with Cons.prems have run: "products_loop rt st ps = Inr st'" by simp
    have acc: "filter (\<lambda>x. fst x \<notin> seen st) (accepted rt (p # ps))
        = filter (\<lambda>x. fst x \<notin> seen st) (accepted rt ps)
      \<and> seen st \<union> fst ` set (accepted rt (p # ps)) = seen st \<union> fst ` set (accepted rt ps)"
    proof (cases "normalize rt p")
      case (Emit code row)
      with Skip have "code \<in> seen st"
        using loop_body_Emit_iff[of rt "seen st" p code row] by auto
      with Emit show ?thesis by auto
    qed simp_all
    with Cons.IH[OF run] show ?thesis by simp
  next
    case (Emit code row)
    then have norm: "normalize rt p = Emit code row" and new: "code \<notin> seen st"
      by (simp_all add: loop_body_Emit_iff)
    let ?st1 = "st\<lparr>rows := rows st @ [row], seen := insert code (seen st)\<rparr>"
    from Cons.prems Emit have run: "products_loop rt ?st1 ps = Inr st'" by simp
    have "filter (\<lambda>x. fst x \<noteq> code)
            (first_per_id (filter (\<lambda>x. fst x \<notin> seen st) (accepted rt ps)))
        = first_per_id (filter (\<lambda>x. fst x \<notin> insert code (seen st)) (accepted rt ps))"
      by (simp add: first_per_id_filter[of "\<lambda>k. k \<noteq> code"] conj_commute)
    with Cons.IH[OF run] norm new show ?thesis by simp
  qed
qed

lemma queries_loop_rows:
  "queries_loop rt st qrs = Inr st' \<Longrightarrow>
     rows st' = rows st
        @ map snd (first_per_id (filter (\<lambda>x. fst x \<notin> seen st) (accepted rt (fetched qrs))))
   \<and> seen st' = seen st \<union> fst ` set (accepted rt (fetched qrs))"
proof (induction qrs arbitrary: st)
  case Nil
  then show ?case by simp
next
  case (Cons qr qrs)
  obtain q resp where qr: "qr = (q, resp)" by (cases qr)
  show ?case
  proof (cases "fetch_off_search resp")
    case (Inl e)
    with Cons.prems qr
    have "queries_loop rt (st\<lparr>printed := printed st @ [Warn q e]\<rparr>) qrs = Inr st'" by simp
    from Cons.IH[OF this] Inl qr show ?thesis by simp
  next
    case (Inr products)
    with Cons.prems qr obtain ps st1 where it: "py_iter products = Inr ps"
      and inner: "products_loop rt st ps = Inr st1"
      and rest: "queries_loop rt st1 qrs = Inr st'"
      by (auto split: sum.splits)
    note A = products_loop_rows[OF inner]
    note B = Cons.IH[OF rest]
    have f: "fetched (qr # qrs) = ps @ fetched qrs"
      using qr Inr it by simp
    let ?N = "\<lambda>x. fst x \<notin> seen st"
    have "first_per_id (filter ?N (accepted rt (ps @ fetched qrs)))
        = first_per_id (filter ?N (accepted rt ps))
          @ filter (\<lambda>x. fst x \<notin> fst ` set (filter ?N (accepted rt ps)))
              (first_per_id (filter ?N (accepted rt (fetched qrs))))"
      by (simp add: accepted_append first_per_id_append)
    also have "filter (\<lambda>x. fst x \<notin> fst ` set (filter ?N (accepted rt ps)))
              (first_per_id (filter ?N (accepted rt (fetched qrs))))
        = first_per_id (filter (\<lambda>x. fst x \<notin> seen st1) (accepted rt (fetched qrs)))"
    proof -
      have "filter (\<lambda>x. fst x \<notin> fst ` set (filter ?N (accepted rt ps)))
              (first_per_id (filter ?N (accepted rt (fetched qrs))))
          = first_per_id (filter (\<lambda>x. fst x \<notin> fst ` set (filter ?N (accepted rt ps)))
              (filter ?N (accepted rt (fetched qrs))))"
        by (rule first_per_id_filter[of "\<lambda>k. k \<notin> fst ` set (filter ?N (accepted rt ps))"])
      also have "filter (\<lambda>x. fst x \<notin> fst ` set (filter ?N (accepted rt ps)))
              (filter ?N (accepted rt (fetched qrs)))
          = filter (\<lambda>x. fst x \<notin> seen st1) (accepted rt (fetched qrs))"
        using A by (auto intro!: filter_cong simp: image_iff)
      finally show ?thesis .
    qed
    finally have "first_per_id (filter ?N (accepted rt (fetched (qr # qrs))))
        = first_per_id (filter ?N (accepted rt ps))
          @ first_per_id (filter (\<lambda>x. fst x \<notin> seen st1) (accepted rt (fetched qrs)))"
      using f by simp
    with A B f show ?thesis by (auto simp: accepted_append)
  qed
qed

text \<open>
  Claim C1, as amended.  When the run ends, the rows are the rows of the records that the
  normalizer accepts, in the order the driver meets them (term after term, record after
  record), with only the first accepted record of each identifier kept.  So an
  identifier has at most one row, the identifiers of the rows are exactly \<^verbatim>\<open>seen\<close>,
  and the row of an identifier is the one that a left-to-right lookup finds among the
  accepted records: the normalization of the first record with that identifier that
  passes the gates, not of the first record that carries it.
\<close>

theorem dedup_first_accepted:
  assumes "queries_loop rt init_state qrs = Inr st"
  shows "rows st = map snd (first_per_id (accepted rt (fetched qrs)))
       \<and> seen st = fst ` set (first_per_id (accepted rt (fetched qrs)))
       \<and> distinct (map fst (first_per_id (accepted rt (fetched qrs))))
       \<and> map_of (first_per_id (accepted rt (fetched qrs))) = map_of (accepted rt (fetched qrs))"
proof -
  have "(\<lambda>x::string \<times> string list. fst x \<notin> seen (init_state :: 'a state)) = (\<lambda>x. True)"
    by (simp add: init_state_def)
  with queries_loop_rows[OF assms]
  have "rows st = map snd (first_per_id (accepted rt (fetched qrs)))"
    and "seen st = fst ` set (accepted rt (fetched qrs))"
    by (simp_all add: init_state_def)
  then show ?thesis
    by (simp add: first_per_id_keys first_per_id_distinct first_per_id_map_of)
qed

text \<open>
  The theorem at work: two terms each return an acceptable record \<^verbatim>\<open>X1\<close>, with the
  brands \<^verbatim>\<open>Alfa\<close> and \<^verbatim>\<open>Beta\<close>; the single row carries \<^verbatim>\<open>Alfa\<close>.
\<close>

theorem dedup_first_accepted_witness:
  "queries_loop excerpt_rt init_state
       [(''q1'', sample_page [sample_record ''X1'' ''Sut'' ''Alfa'']),
        (''q2'', sample_page [sample_record ''X1'' ''Sut'' ''Beta''])]
     = Inr \<lparr>seen = {''X1''},
            rows = [[''Sut'', ''Sut'', ''Alfa'', ''100.0'', ''0.0'', ''0.0'', ''0.0'', ''other'']],
            printed = []\<rparr>
   \<and> map snd (first_per_id (accepted excerpt_rt (fetched
       [(''q1'', sample_page [sample_record ''X1'' ''Sut'' ''Alfa'']),
        (''q2'', sample_page [sample_record ''X1'' ''Sut'' ''Beta''])])))
     = [[''Sut'', ''Sut'', ''Alfa'', ''100.0'', ''0.0'', ''0.0'', ''0.0'', ''other'']]"
proof -
  have run: "queries_loop excerpt_rt init_state
       [(''q1'', sample_page [sample_record ''X1'' ''Sut'' ''Alfa'']),
        (''q2'', sample_page [sample_record ''X1'' ''Sut'' ''Beta''])]
     = Inr \<lparr>seen = {''X1''},
            rows = [[''Sut'', ''Sut'', ''Alfa'', ''100.0'', ''0.0'', ''0.0'', ''0.0'', ''other'']],
            printed = []\<rparr>"
    by code_simp
  from dedup_first_accepted[OF run] run show ?thesis by simp
qed

text \<open>
  Claim C1 as it is written fails: the first record that carries \<^verbatim>\<open>X1\<close>, returned
  for the first term with the brand \<^verbatim>\<open>Alfa\<close>, has no name and is skipped; the record
  \<^verbatim>\<open>X1\<close> of the second term is accepted, and the one row of the output carries its
  brand \<^verbatim>\<open>Beta\<close>.
\<close>

theorem first_seen_counterexample:
  "get_stripped sample_nameless ''code'' = Inr ''X1''
   \<and> get_stripped sample_nameless ''brands'' = Inr ''Alfa''
   \<and> normalize excerpt_rt sample_nameless = Skip EmptyName
   \<and> get_stripped (sample_record ''X1'' ''Sut'' ''Beta'') ''code'' = Inr ''X1''
   \<and> queries_loop excerpt_rt init_state
       [(''q1'', sample_page [sample_nameless]),
        (''q2'', sample_page [sample_record ''X1'' ''Sut'' ''Beta''])]
     = Inr \<lparr>seen = {''X1''},
            rows = [[''Sut'', ''Sut'', ''Beta'', ''100.0'', ''0.0'', ''0.0'', ''0.0'', ''other'']],
            printed = []\<rparr>"
  by code_simp

subsection \<open>The macro gate\<close>

text \<open>
  Claim C3.  Take a raw candidate record whose trimmed identifier is not empty and not yet
  seen.  Its four sanitized macro values exist, and the loop body rejects the record at
  the macro gate (line 167) if and only if all four are at most zero.  When one of them is
  positive the record passes this gate: it is then skipped only for an empty name, and
  emitted otherwise.
\<close>

theorem macro_gate:
  assumes "raw_record p" and "get_stripped p ''code'' = Inr code"
    and "code \<noteq> []" and "code \<notin> seen_codes"
  shows "\<exists>kcal prot carb fat.
           macros rt p = Inr (kcal, prot, carb, fat)
         \<and> (loop_body rt seen_codes p = Skip BlankMacros
              \<longleftrightarrow> le_zero kcal \<and> le_zero prot \<and> le_zero carb \<and> le_zero fat)
         \<and> (\<not> (le_zero kcal \<and> le_zero prot \<and> le_zero carb \<and> le_zero fat)
              \<longrightarrow> loop_body rt seen_codes p = Skip EmptyName
                  \<or> (\<exists>row. loop_body rt seen_codes p = Emit code row))"
proof -
  from assms(1) obtain code' name brands kcal prot carb fat cv cat where
    parts: "get_stripped p ''code'' = Inr code'"
      "macros rt p = Inr (kcal, prot, carb, fat)"
      "get_stripped p ''product_name'' = Inr name"
      "get_stripped p ''brands'' = Inr brands"
      "py_get p ''categories_tags'' = Inr cv"
      "map_category (py_or cv (JList [])) = Inr cat"
    by (rule raw_record_parts[of p rt])
  from parts(1) assms(2) have same: "code' = code" by simp
  let ?blank = "le_zero kcal \<and> le_zero prot \<and> le_zero carb \<and> le_zero fat"
  have gate: "loop_body rt seen_codes p = Skip BlankMacros \<longleftrightarrow> ?blank"
    unfolding loop_body_of_parts[OF parts] using same assms(3,4) by simp
  have pass: "\<not> ?blank \<longrightarrow> loop_body rt seen_codes p = Skip EmptyName
        \<or> (\<exists>row. loop_body rt seen_codes p = Emit code row)"
    unfolding loop_body_of_parts[OF parts] using same assms(3,4) by simp
  from parts(2) gate pass show ?thesis by blast
qed

lemma sample_macros_raw: "raw_record (sample_macros kcal prot)"
  by (simp add: sample_macros_def entry_def)

lemma sample_macros_code: "get_stripped (sample_macros kcal prot) ''code'' = Inr ''X2''"
  by (simp add: sample_macros_def get_stripped_def py_or_def strip_def is_space_def)

text \<open>
  The theorem at work: energy, protein, carbohydrate and fat all 0 is rejected at the
  gate; energy 0 with protein 0.1 passes it and, having a name, is emitted.
\<close>

theorem macro_gate_witness:
  "raw_record (sample_macros (Finite 0) (Finite 0))
   \<and> macros excerpt_rt (sample_macros (Finite 0) (Finite 0))
       = Inr (Finite 0, Finite 0, Finite 0, Finite 0)
   \<and> loop_body excerpt_rt {} (sample_macros (Finite 0) (Finite 0)) = Skip BlankMacros
   \<and> raw_record (sample_macros (Finite 0) (Finite (1 / 10)))
   \<and> macros excerpt_rt (sample_macros (Finite 0) (Finite (1 / 10)))
       = Inr (Finite 0, Finite (1 / 10), Finite 0, Finite 0)
   \<and> loop_body excerpt_rt {} (sample_macros (Finite 0) (Finite (1 / 10)))
       = Emit ''X2'' [''Pirinc'', ''Pirinc'', [], ''0.0'', ''0.1'', ''0.0'', ''0.0'', ''other'']"
proof -
  have m0: "macros excerpt_rt (sample_macros (Finite 0) (Finite 0))
       = Inr (Finite 0, Finite 0, Finite 0, Finite 0)"
    by code_simp
  have m1: "macros excerpt_rt (sample_macros (Finite 0) (Finite (1 / 10)))
       = Inr (Finite 0, Finite (1 / 10), Finite 0, Finite 0)"
    by code_simp
  have e1: "loop_body excerpt_rt {} (sample_macros (Finite 0) (Finite (1 / 10)))
       = Emit ''X2'' [''Pirinc'', ''Pirinc'', [], ''0.0'', ''0.1'', ''0.0'', ''0.0'', ''other'']"
    by code_simp
  from macro_gate[OF sample_macros_raw sample_macros_code, of "{}" excerpt_rt "Finite 0" "Finite 0"] m0
  have "loop_body excerpt_rt {} (sample_macros (Finite 0) (Finite 0)) = Skip BlankMacros"
    by simp
  moreover
  from macro_gate[OF sample_macros_raw sample_macros_code, of "{}" excerpt_rt "Finite 0" "Finite (1 / 10)"] m1
  have "loop_body excerpt_rt {} (sample_macros (Finite 0) (Finite (1 / 10))) \<noteq> Skip BlankMacros"
    by simp
  ultimately show ?thesis using m0 m1 e1 sample_macros_raw by simp
qed

subsection \<open>Rejected records\<close>

lemma products_loop_Skip:
  "loop_body rt (seen st) p = Skip r \<Longrightarrow> products_loop rt st (p # ps) = products_loop rt st ps"
  by simp

lemma products_loop_Emit:
  "loop_body rt (seen st) p = Emit code row \<Longrightarrow>
   products_loop rt st (p # ps)
     = products_loop rt (st\<lparr>rows := rows st @ [row], seen := insert code (seen st)\<rparr>) ps"
  by simp

text \<open>
  Claim C10.  A record that the loop body skips, for whatever reason, leaves the state as
  it was: \<^verbatim>\<open>seen\<close> and \<^verbatim>\<open>rows\<close> are unchanged and the loop goes on as if the
  record had not been there.  So a record that the body would emit in that state, such as
  a later record with the same identifier that passes all gates, is still emitted right
  after the rejected one; and a term whose only record is rejected leaves the state to the
  next term as it found it.
\<close>

theorem rejection_keeps_state:
  assumes "loop_body rt (seen st) p = Skip r"
  shows "products_loop rt st [p] = Inr st
       \<and> (\<forall>ps. products_loop rt st (p # ps) = products_loop rt st ps)
       \<and> (\<forall>p2 code row. loop_body rt (seen st) p2 = Emit code row \<longrightarrow>
            products_loop rt st [p, p2]
              = Inr (st\<lparr>rows := rows st @ [row], seen := insert code (seen st)\<rparr>))
       \<and> (\<forall>q resp qrs. fetch_off_search resp = Inr (JList [p]) \<longrightarrow>
            queries_loop rt st ((q, resp) # qrs) = queries_loop rt st qrs)"
  using assms by simp

text \<open>
  The theorem at work: \<^verbatim>\<open>X1\<close> without a name is skipped, the next record
  \<^verbatim>\<open>X1\<close> with a name is emitted.
\<close>

theorem rejection_keeps_state_witness:
  "loop_body excerpt_rt (seen (init_state :: string state)) sample_nameless = Skip EmptyName
   \<and> get_stripped sample_nameless ''code'' = Inr ''X1''
   \<and> products_loop excerpt_rt (init_state :: string state) [sample_nameless] = Inr init_state
   \<and> loop_body excerpt_rt (seen (init_state :: string state)) (sample_record ''X1'' ''Sut'' ''Beta'')
       = Emit ''X1'' [''Sut'', ''Sut'', ''Beta'', ''100.0'', ''0.0'', ''0.0'', ''0.0'', ''other'']
   \<and> products_loop excerpt_rt (init_state :: string state)
        [sample_nameless, sample_record ''X1'' ''Sut'' ''Beta'']
       = Inr \<lparr>seen = {''X1''},
              rows = [[''Sut'', ''Sut'', ''Beta'', ''100.0'', ''0.0'', ''0.0'', ''0.0'', ''other'']],
              printed = []\<rparr>
   \<and> fetch_off_search (sample_page [sample_nameless]) = Inr (JList [sample_nameless])
   \<and> queries_loop excerpt_rt init_state
        [(''q1'', sample_page [sample_nameless]),
         (''q2'', sample_page [sample_record ''X1'' ''Sut'' ''Beta''])]
       = queries_loop excerpt_rt init_state
           [(''q2'', sample_page [sample_record ''X1'' ''Sut'' ''Beta''])]"
proof -
  have page: "fetch_off_search (sample_page [sample_nameless]) = Inr (JList [sample_nameless])"
    by (simp add: sample_page_def)
  have rej: "loop_body excerpt_rt (seen (init_state :: string state)) sample_nameless
      = Skip EmptyName"
    by code_simp
  have acc: "loop_body excerpt_rt (seen (init_state :: string state))
        (sample_record ''X1'' ''Sut'' ''Beta'')
       = Emit ''X1'' [''Sut'', ''Sut'', ''Beta'', ''100.0'', ''0.0'', ''0.0'', ''0.0'', ''other'']"
    by code_simp
  have ident: "get_stripped sample_nameless ''code'' = Inr ''X1''"
    by code_simp
  note inst = rejection_keeps_state[OF rej]
  from inst have one: "products_loop excerpt_rt (init_state :: string state) [sample_nameless]
      = Inr init_state"
    by (rule conjunct1)
  from inst acc
  have "products_loop excerpt_rt (init_state :: string state)
        [sample_nameless, sample_record ''X1'' ''Sut'' ''Beta'']
       = Inr ((init_state :: string state)\<lparr>rows := rows (init_state :: string state)
                @ [[''Sut'', ''Sut'', ''Beta'', ''100.0'', ''0.0'', ''0.0'', ''0.0'', ''other'']],
              seen := insert ''X1'' (seen (init_state :: string state))\<rparr>)"
    by blast
  then have two: "products_loop excerpt_rt (init_state :: string state)
        [sample_nameless, sample_record ''X1'' ''Sut'' ''Beta'']
       = Inr \<lparr>seen = {''X1''},
              rows = [[''Sut'', ''Sut'', ''Beta'', ''100.0'', ''0.0'', ''0.0'', ''0.0'', ''other'']],
              printed = []\<rparr>"
    by (simp add: init_state_def)
  from inst page
  have three: "queries_loop excerpt_rt init_state
        [(''q1'', sample_page [sample_nameless]),
         (''q2'', sample_page [sample_record ''X1'' ''Sut'' ''Beta''])]
       = queries_loop excerpt_rt init_state
           [(''q2'', sample_page [sample_record ''X1'' ''Sut'' ''Beta''])]"
    by blast
  from rej ident one acc two page three show ?thesis by simp
qed

subsection \<open>Row count\<close>

lemma products_loop_returns:
  "list_all raw_record ps \<Longrightarrow> \<exists>st'. products_loop rt st ps = Inr st'"
proof (induction ps arbitrary: st)
  case Nil
  show ?case by simp
next
  case (Cons p ps)
  then have raw: "raw_record p" and rest: "list_all raw_record ps" by simp_all
  from raw obtain code name brands kcal prot carb fat cv cat where
    parts: "get_stripped p ''code'' = Inr code"
      "macros rt p = Inr (kcal, prot, carb, fat)"
      "get_stripped p ''product_name'' = Inr name"
      "get_stripped p ''brands'' = Inr brands"
      "py_get p ''categories_tags'' = Inr cv"
      "map_category (py_or cv (JList [])) = Inr cat"
    by (rule raw_record_parts[of p rt])
  show ?case
    using Cons.IH[OF rest] unfolding products_loop.simps loop_body_of_parts[OF parts]
    by (simp split: if_splits)
qed

lemma queries_loop_returns:
  "list_all (\<lambda>qr. well_formed_page (snd qr)) qrs \<Longrightarrow> \<exists>st'. queries_loop rt st qrs = Inr st'"
proof (induction qrs arbitrary: st)
  case Nil
  show ?case by simp
next
  case (Cons qr qrs)
  obtain q resp where qr: "qr = (q, resp)" by (cases qr)
  from Cons.prems qr have wf: "well_formed_page resp"
    and rest: "list_all (\<lambda>qr. well_formed_page (snd qr)) qrs" by simp_all
  show ?case
  proof (cases "fetch_off_search resp")
    case (Inl e)
    with Cons.IH[OF rest] qr show ?thesis by simp
  next
    case (Inr v)
    with wf obtain ps where v: "v = JList ps" and raw: "list_all raw_record ps"
      by (cases v) (simp_all add: well_formed_page_def)
    from products_loop_returns[OF raw] obtain st1 where "products_loop rt st ps = Inr st1"
      by blast
    with Cons.IH[OF rest, of st1] Inr v qr show ?thesis by simp
  qed
qed

lemma products_loop_card:
  "products_loop rt st ps = Inr st' \<Longrightarrow> finite (seen st) \<Longrightarrow> card (seen st) = length (rows st)
   \<Longrightarrow> finite (seen st') \<and> card (seen st') = length (rows st')"
proof (induction ps arbitrary: st)
  case Nil
  then show ?case by simp
next
  case (Cons p ps)
  show ?case
  proof (cases "loop_body rt (seen st) p")
    case (Raise e)
    with Cons.prems show ?thesis by simp
  next
    case (Skip r)
    with Cons show ?thesis by simp
  next
    case (Emit code row)
    then have new: "code \<notin> seen st" by (simp add: loop_body_Emit_iff)
    let ?st1 = "st\<lparr>rows := rows st @ [row], seen := insert code (seen st)\<rparr>"
    from Cons.prems(1) Emit have run: "products_loop rt ?st1 ps = Inr st'" by simp
    from new Cons.prems(2,3) have "finite (seen ?st1)" "card (seen ?st1) = length (rows ?st1)"
      by simp_all
    with Cons.IH[OF run] show ?thesis by blast
  qed
qed

lemma queries_loop_card:
  "queries_loop rt st qrs = Inr st' \<Longrightarrow> finite (seen st) \<Longrightarrow> card (seen st) = length (rows st)
   \<Longrightarrow> finite (seen st') \<and> card (seen st') = length (rows st')"
proof (induction qrs arbitrary: st)
  case Nil
  then show ?case by simp
next
  case (Cons qr qrs)
  obtain q resp where qr: "qr = (q, resp)" by (cases qr)
  show ?case
  proof (cases "fetch_off_search resp")
    case (Inl e)
    with Cons.prems(1) qr
    have "queries_loop rt (st\<lparr>printed := printed st @ [Warn q e]\<rparr>) qrs = Inr st'" by simp
    from Cons.IH[OF this] Cons.prems(2,3) show ?thesis by simp
  next
    case (Inr products)
    with Cons.prems(1) qr obtain ps st1 where "py_iter products = Inr ps"
      and inner: "products_loop rt st ps = Inr st1"
      and rest: "queries_loop rt st1 qrs = Inr st'"
      by (auto split: sum.splits)
    from products_loop_card[OF inner Cons.prems(2,3)] Cons.IH[OF rest] show ?thesis by blast
  qed
qed

text \<open>
  Claim C6.  When the run ends, \<^verbatim>\<open>seen\<close> is finite and the number of rows is its
  size.  One pass of the loop body either appends its row and adds its identifier, which
  was not in the set, or changes neither the rows nor the set.  And the run does end
  whenever every response is of the expected shape.
\<close>

theorem row_count_is_seen_size:
  "(queries_loop rt init_state qrs = Inr st
      \<longrightarrow> finite (seen st) \<and> length (rows st) = card (seen st))
   \<and> (\<forall>s p s'. products_loop rt s [p] = Inr s' \<longrightarrow>
         (case loop_body rt (seen s) p of
            Emit code row \<Rightarrow>
              code \<notin> seen s \<and> seen s' = insert code (seen s) \<and> rows s' = rows s @ [row]
          | _ \<Rightarrow> seen s' = seen s \<and> rows s' = rows s))
   \<and> (list_all (\<lambda>qr. well_formed_page (snd qr)) qrs
      \<longrightarrow> (\<exists>end_state. queries_loop rt init_state qrs = Inr end_state))"
proof -
  have run: "finite (seen st) \<and> length (rows st) = card (seen st)"
    if "queries_loop rt init_state qrs = Inr st"
    using queries_loop_card[OF that] by (simp add: init_state_def)
  have step: "case loop_body rt (seen s) p of
            Emit code row \<Rightarrow>
              code \<notin> seen s \<and> seen s' = insert code (seen s) \<and> rows s' = rows s @ [row]
          | _ \<Rightarrow> seen s' = seen s \<and> rows s' = rows s"
    if "products_loop rt s [p] = Inr s'" for s :: "'b state" and p s'
  proof (cases "loop_body rt (seen s) p")
    case (Emit code row)
    then have "code \<notin> seen s" by (simp add: loop_body_Emit_iff)
    with Emit that show ?thesis by auto
  qed (use that in auto)
  have ends: "\<exists>end_state. queries_loop rt (init_state :: 'a state) qrs = Inr end_state"
    if "list_all (\<lambda>qr. well_formed_page (snd qr)) qrs"
    using that by (rule queries_loop_returns)
  from run step ends show ?thesis by blast
qed

text \<open>
  The theorem at work on two terms with an accepted record, a rejected one, a duplicate
  and a second accepted record.
\<close>

theorem row_count_is_seen_size_witness:
  "queries_loop excerpt_rt init_state
       [(''q1'', sample_page [sample_record ''X1'' ''Sut'' ''Alfa'', sample_nameless]),
        (''q2'', sample_page [sample_record ''X1'' ''Sut'' ''Beta'', sample_record ''X2'' ''Ayran'' []])]
     = Inr \<lparr>seen = {''X2'', ''X1''},
            rows = [[''Sut'', ''Sut'', ''Alfa'', ''100.0'', ''0.0'', ''0.0'', ''0.0'', ''other''],
                    [''Ayran'', ''Ayran'', [], ''100.0'', ''0.0'', ''0.0'', ''0.0'', ''other'']],
            printed = []\<rparr>
   \<and> length [[''Sut'', ''Sut'', ''Alfa'', ''100.0'', ''0.0'', ''0.0'', ''0.0'', ''other''],
             [''Ayran'', ''Ayran'', [], ''100.0'', ''0.0'', ''0.0'', ''0.0'', ''other'']]
       = card {''X2'', ''X1''}
   \<and> products_loop excerpt_rt (init_state :: string state) [sample_record ''X1'' ''Sut'' ''Alfa'']
       = Inr \<lparr>seen = {''X1''},
            rows = [[''Sut'', ''Sut'', ''Alfa'', ''100.0'', ''0.0'', ''0.0'', ''0.0'', ''other'']],
            printed = []\<rparr>
   \<and> list_all (\<lambda>qr. well_formed_page (snd qr))
       [(''q1'', sample_page [sample_record ''X1'' ''Sut'' ''Alfa'', sample_nameless]),
        (''q2'', sample_page [sample_record ''X1'' ''Sut'' ''Beta'', sample_record ''X2'' ''Ayran'' []])]"
proof -
  have shape: "list_all (\<lambda>qr. well_formed_page (snd qr))
       [(''q1'', sample_page [sample_record ''X1'' ''Sut'' ''Alfa'', sample_nameless]),
        (''q2'', sample_page [sample_record ''X1'' ''Sut'' ''Beta'', sample_record ''X2'' ''Ayran'' []])]"
    by code_simp
  have run: "queries_loop excerpt_rt init_state
       [(''q1'', sample_page [sample_record ''X1'' ''Sut'' ''Alfa'', sample_nameless]),
        (''q2'', sample_page [sample_record ''X1'' ''Sut'' ''Beta'', sample_record ''X2'' ''Ayran'' []])]
     = Inr \<lparr>seen = {''X2'', ''X1''},
            rows = [[''Sut'', ''Sut'', ''Alfa'', ''100.0'', ''0.0'', ''0.0'', ''0.0'', ''other''],
                    [''Ayran'', ''Ayran'', [], ''100.0'', ''0.0'', ''0.0'', ''0.0'', ''other'']],
            printed = []\<rparr>"
    by code_simp
  have one: "products_loop excerpt_rt (init_state :: string state) [sample_record ''X1'' ''Sut'' ''Alfa'']
       = Inr \<lparr>seen = {''X1''},
            rows = [[''Sut'', ''Sut'', ''Alfa'', ''100.0'', ''0.0'', ''0.0'', ''0.0'', ''other'']],
            printed = []\<rparr>"
    by code_simp
  from row_count_is_seen_size[of excerpt_rt _ _, THEN conjunct1, THEN mp, OF run]
  have "length [[''Sut'', ''Sut'', ''Alfa'', ''100.0'', ''0.0'', ''0.0'', ''0.0'', ''other''],
             [''Ayran'', ''Ayran'', [], ''100.0'', ''0.0'', ''0.0'', ''0.0'', ''other'']]
       = card {''X2'', ''X1''}"
    by simp
  with run one shape show ?thesis by simp
qed

subsection \<open>Names\<close>

lemma products_loop_named:
  "products_loop rt st ps = Inr st' \<Longrightarrow> list_all named_row (rows st)
   \<Longrightarrow> list_all named_row (rows st')"
proof (induction ps arbitrary: st)
  case Nil
  then show ?case by simp
next
  case (Cons p ps)
  show ?case
  proof (cases "loop_body rt (seen st) p")
    case (Raise e)
    with Cons.prems show ?thesis by simp
  next
    case (Skip r)
    with Cons show ?thesis by simp
  next
    case (Emit code row)
    let ?st1 = "st\<lparr>rows := rows st @ [row], seen := insert code (seen st)\<rparr>"
    from Cons.prems(1) Emit have run: "products_loop rt ?st1 ps = Inr st'" by simp
    from loop_body_EmitD(4,5,6)[OF Emit] have "named_row row"
      by (simp add: named_row_def)
    with Cons.prems(2) have "list_all named_row (rows ?st1)" by simp
    with Cons.IH[OF run] show ?thesis by blast
  qed
qed

lemma queries_loop_named:
  "queries_loop rt st qrs = Inr st' \<Longrightarrow> list_all named_row (rows st)
   \<Longrightarrow> list_all named_row (rows st')"
proof (induction qrs arbitrary: st)
  case Nil
  then show ?case by simp
next
  case (Cons qr qrs)
  obtain q resp where qr: "qr = (q, resp)" by (cases qr)
  show ?case
  proof (cases "fetch_off_search resp")
    case (Inl e)
    with Cons.prems(1) qr
    have "queries_loop rt (st\<lparr>printed := printed st @ [Warn q e]\<rparr>) qrs = Inr st'" by simp
    from Cons.IH[OF this] Cons.prems(2) show ?thesis by simp
  next
    case (Inr products)
    with Cons.prems(1) qr obtain ps st1 where "py_iter products = Inr ps"
      and inner: "products_loop rt st ps = Inr st1"
      and rest: "queries_loop rt st1 qrs = Inr st'"
      by (auto split: sum.splits)
    from products_loop_named[OF inner Cons.prems(2)] Cons.IH[OF rest] show ?thesis by blast
  qed
qed

lemma get_stripped_missing:
  "map_of kvs k = None \<Longrightarrow> get_stripped (JDict kvs) k = Inr []"
  by (simp add: get_stripped_def py_or_def strip_def)

text \<open>
  Claim C7.  When the run ends, every row has eight fields and its two name fields are
  not empty.  A record whose trimmed \<^verbatim>\<open>product_name\<close> is empty is never emitted,
  whatever its macro values; a raw candidate record of that kind is skipped; and a record
  without the key \<^verbatim>\<open>product_name\<close> has an empty trimmed name.
\<close>

theorem rows_have_names:
  "(queries_loop rt init_state qrs = Inr st
      \<longrightarrow> (\<forall>row \<in> set (rows st). length row = 8 \<and> row ! 0 \<noteq> [] \<and> row ! 1 \<noteq> []))
   \<and> (get_stripped p ''product_name'' = Inr []
      \<longrightarrow> (\<forall>code row. loop_body rt seen_codes p \<noteq> Emit code row))
   \<and> (raw_record p \<and> get_stripped p ''product_name'' = Inr []
      \<longrightarrow> (\<exists>r. loop_body rt seen_codes p = Skip r))
   \<and> (map_of kvs ''product_name'' = None
      \<longrightarrow> get_stripped (JDict kvs) ''product_name'' = Inr [])"
proof -
  have run: "\<forall>row \<in> set (rows st). length row = 8 \<and> row ! 0 \<noteq> [] \<and> row ! 1 \<noteq> []"
    if "queries_loop rt init_state qrs = Inr st"
    using queries_loop_named[OF that] by (simp add: init_state_def list_all_iff named_row_def)
  have never: "loop_body rt seen_codes p \<noteq> Emit code row"
    if "get_stripped p ''product_name'' = Inr []" for code row
  proof
    assume "loop_body rt seen_codes p = Emit code row"
    from loop_body_EmitD(5,7)[OF this] that show False by simp
  qed
  have skip: "\<exists>r. loop_body rt seen_codes p = Skip r"
    if raw: "raw_record p" and nm: "get_stripped p ''product_name'' = Inr []"
  proof -
    from raw obtain code name brands kcal prot carb fat cv cat where
      parts: "get_stripped p ''code'' = Inr code"
        "macros rt p = Inr (kcal, prot, carb, fat)"
        "get_stripped p ''product_name'' = Inr name"
        "get_stripped p ''brands'' = Inr brands"
        "py_get p ''categories_tags'' = Inr cv"
        "map_category (py_or cv (JList [])) = Inr cat"
      by (rule raw_record_parts[of p rt])
    from parts(3) nm have "name = []" by simp
    then show ?thesis unfolding loop_body_of_parts[OF parts] by simp
  qed
  from run never skip get_stripped_missing show ?thesis by blast
qed

text \<open>
  The theorem at work: the record \<^verbatim>\<open>X1\<close> has all four macro values and no
  \<^verbatim>\<open>product_name\<close>; it is skipped for its empty name, and the run's only row is
  the named record's.
\<close>

theorem rows_have_names_witness:
  "map_of [(''code'', JStr ''X1''), (''brands'', JStr ''Alfa'')] ''product_name'' = None
   \<and> raw_record sample_nameless
   \<and> get_stripped sample_nameless ''product_name'' = Inr []
   \<and> macros excerpt_rt sample_nameless = Inr (Finite 100, Finite 3, Finite 3, Finite 3)
   \<and> loop_body excerpt_rt {} sample_nameless = Skip EmptyName
   \<and> queries_loop excerpt_rt init_state
        [(''q1'', sample_page [sample_nameless, sample_record ''X7'' ''Sut'' ''Alfa''])]
       = Inr \<lparr>seen = {''X7''},
              rows = [[''Sut'', ''Sut'', ''Alfa'', ''100.0'', ''0.0'', ''0.0'', ''0.0'', ''other'']],
              printed = []\<rparr>
   \<and> list_all (\<lambda>row. length row = 8 \<and> row ! 0 \<noteq> [] \<and> row ! 1 \<noteq> [])
        [[''Sut'', ''Sut'', ''Alfa'', ''100.0'', ''0.0'', ''0.0'', ''0.0'', ''other'']]"
proof -
  have raw: "raw_record sample_nameless"
    by (simp add: sample_nameless_def entry_def)
  have nm: "get_stripped sample_nameless ''product_name'' = Inr []"
    by code_simp
  have mac: "macros excerpt_rt sample_nameless = Inr (Finite 100, Finite 3, Finite 3, Finite 3)"
    by code_simp
  have body: "loop_body excerpt_rt {} sample_nameless = Skip EmptyName"
    by code_simp
  have run: "queries_loop excerpt_rt init_state
        [(''q1'', sample_page [sample_nameless, sample_record ''X7'' ''Sut'' ''Alfa''])]
       = Inr \<lparr>seen = {''X7''},
              rows = [[''Sut'', ''Sut'', ''Alfa'', ''100.0'', ''0.0'', ''0.0'', ''0.0'', ''other'']],
              printed = []\<rparr>"
    by code_simp
  note inst = rows_have_names[of excerpt_rt
      "[(''q1'', sample_page [sample_nameless, sample_record ''X7'' ''Sut'' ''Alfa''])]"
      "\<lparr>seen = {''X7''},
              rows = [[''Sut'', ''Sut'', ''Alfa'', ''100.0'', ''0.0'', ''0.0'', ''0.0'', ''other'']],
              printed = []\<rparr>" sample_nameless "{}"
      "[(''code'', JStr ''X1''), (''brands'', JStr ''Alfa'')]"]
  from inst run
  have "list_all (\<lambda>row. length row = 8 \<and> row ! 0 \<noteq> [] \<and> row ! 1 \<noteq> [])
        [[''Sut'', ''Sut'', ''Alfa'', ''100.0'', ''0.0'', ''0.0'', ''0.0'', ''other'']]"
    by (simp add: list_all_iff)
  moreover from inst raw nm have "\<exists>r. loop_body excerpt_rt {} sample_nameless = Skip r"
    by blast
  ultimately show ?thesis using raw nm mac body run by simp
qed

subsection \<open>Failed queries\<close>

lemma queries_loop_append:
  "queries_loop rt st (pre @ post)
     = (case queries_loop rt st pre of Inl x \<Rightarrow> Inl x | Inr s \<Rightarrow> queries_loop rt s post)"
proof (induction pre arbitrary: st)
  case Nil
  show ?case by simp
next
  case (Cons qr pre)
  obtain q resp where qr: "qr = (q, resp)" by (cases qr)
  show ?case using Cons.IH qr by (simp split: sum.splits)
qed

lemma products_loop_core:
  "core a = core b \<Longrightarrow>
   map_sum id core (products_loop rt a ps) = map_sum id core (products_loop rt b ps)"
proof (induction ps arbitrary: a b)
  case Nil
  then show ?case by simp
next
  case (Cons p ps)
  from Cons.prems have s: "seen a = seen b" and r: "rows a = rows b"
    by (simp_all add: core_def)
  show ?case
  proof (cases "loop_body rt (seen b) p")
    case (Raise e)
    with s show ?thesis by simp
  next
    case (Skip x)
    with s Cons.IH[OF Cons.prems] show ?thesis by simp
  next
    case (Emit code row)
    have "core (a\<lparr>rows := rows a @ [row], seen := insert code (seen a)\<rparr>)
        = core (b\<lparr>rows := rows b @ [row], seen := insert code (seen b)\<rparr>)"
      using s r by (simp add: core_def)
    from Cons.IH[OF this] Emit s show ?thesis by simp
  qed
qed

lemma map_sum_core_cases:
  "map_sum id core x = map_sum id core y \<Longrightarrow>
   (\<exists>e. x = Inl e \<and> y = Inl e) \<or> (\<exists>s t. x = Inr s \<and> y = Inr t \<and> core s = core t)"
  by (cases x; cases y) auto

lemma queries_loop_core:
  "core a = core b \<Longrightarrow>
   map_sum id core (queries_loop rt a qrs) = map_sum id core (queries_loop rt b qrs)"
proof (induction qrs arbitrary: a b)
  case Nil
  then show ?case by simp
next
  case (Cons qr qrs)
  obtain q resp where qr: "qr = (q, resp)" by (cases qr)
  show ?case
  proof (cases "fetch_off_search resp")
    case (Inl e)
    have "core (a\<lparr>printed := printed a @ [Warn q e]\<rparr>) = core (b\<lparr>printed := printed b @ [Warn q e]\<rparr>)"
      using Cons.prems by (simp add: core_def)
    from Cons.IH[OF this] Inl qr show ?thesis by simp
  next
    case (Inr products)
    show ?thesis
    proof (cases "py_iter products")
      case (Inl e)
      with Inr qr show ?thesis by simp
    next
      case ps: (Inr ps)
      from map_sum_core_cases[OF products_loop_core[OF Cons.prems, of rt ps]]
      show ?thesis
      proof
        assume "\<exists>e. products_loop rt a ps = Inl e \<and> products_loop rt b ps = Inl e"
        with Inr ps qr show ?thesis by auto
      next
        assume "\<exists>s t. products_loop rt a ps = Inr s \<and> products_loop rt b ps = Inr t
            \<and> core s = core t"
        then obtain s t where "products_loop rt a ps = Inr s" "products_loop rt b ps = Inr t"
          "core s = core t" by blast
        with Cons.IH[of s t] Inr ps qr show ?thesis by simp
      qed
    qed
  qed
qed

lemma fetched_append: "fetched (xs @ ys) = fetched xs @ fetched ys"
  by (induction xs) auto

text \<open>
  Claim C5.  When the fetch of a term fails, the driver records the warning for that term
  and goes on with the remaining terms from an otherwise unchanged state; wherever the
  term stands in the sequence, the rows and identifiers at the end of the run (or the
  exception that ends it) are those of the run without that term, and the term
  contributes no record.  A missing response, a status outside 200 to 299, a body that
  does not decode, and a decoded body that is not a dictionary each make the fetch fail.
\<close>

theorem failed_query_is_skipped:
  assumes "fetch_off_search resp = Inl e"
  shows "queries_loop rt st ((q, resp) # post)
           = queries_loop rt (st\<lparr>printed := printed st @ [Warn q e]\<rparr>) post
       \<and> queries_loop rt st (pre @ (q, resp) # post)
           = (case queries_loop rt st pre of
                Inl x \<Rightarrow> Inl x
              | Inr s \<Rightarrow> queries_loop rt (s\<lparr>printed := printed s @ [Warn q e]\<rparr>) post)
       \<and> map_sum id (\<lambda>s. (seen s, rows s)) (queries_loop rt st (pre @ (q, resp) # post))
           = map_sum id (\<lambda>s. (seen s, rows s)) (queries_loop rt st (pre @ post))
       \<and> fetched (pre @ (q, resp) # post) = fetched (pre @ post)
       \<and> fetch_off_search NoResponse = Inl URLError
       \<and> (\<forall>status body. status < 200 \<or> 300 \<le> status
            \<longrightarrow> fetch_off_search (Response status body) = Inl RuntimeError)
       \<and> (\<forall>status. 200 \<le> status \<and> status < 300
            \<longrightarrow> fetch_off_search (Response status None) = Inl ValueError)
       \<and> (\<forall>status data. 200 \<le> status \<and> status < 300 \<and> (\<nexists>kvs. data = JDict kvs)
            \<longrightarrow> fetch_off_search (Response status (Some data)) = Inl AttributeError)"
proof -
  have head: "queries_loop rt s ((q, resp) # post)
           = queries_loop rt (s\<lparr>printed := printed s @ [Warn q e]\<rparr>) post" for s :: "'a state"
    using assms by simp
  have mid: "queries_loop rt st (pre @ (q, resp) # post)
           = (case queries_loop rt st pre of
                Inl x \<Rightarrow> Inl x
              | Inr s \<Rightarrow> queries_loop rt (s\<lparr>printed := printed s @ [Warn q e]\<rparr>) post)"
    by (simp only: queries_loop_append head)
  have same: "map_sum id core (queries_loop rt st (pre @ (q, resp) # post))
           = map_sum id core (queries_loop rt st (pre @ post))"
  proof (cases "queries_loop rt st pre")
    case (Inl x)
    then show ?thesis by (simp add: mid queries_loop_append)
  next
    case (Inr s)
    have "core (s\<lparr>printed := printed s @ [Warn q e]\<rparr>) = core s"
      by (simp add: core_def)
    note eq = queries_loop_core[OF this, of rt post]
    have L: "queries_loop rt st (pre @ (q, resp) # post)
        = queries_loop rt (s\<lparr>printed := printed s @ [Warn q e]\<rparr>) post"
      using mid Inr by simp
    have R: "queries_loop rt st (pre @ post) = queries_loop rt s post"
      using Inr by (simp add: queries_loop_append)
    from eq show ?thesis by (simp only: L R)
  qed
  have core_eq: "core = (\<lambda>s :: 'a state. (seen s, rows s))"
    by (rule ext) (simp add: core_def)
  have none: "fetched (pre @ (q, resp) # post) = fetched (pre @ post)"
    using assms by (simp add: fetched_append)
  have shape: "fetch_off_search (Response status (Some data)) = Inl AttributeError"
    if "200 \<le> status \<and> status < 300 \<and> (\<nexists>kvs. data = JDict kvs)" for status data
    using that by (cases data) auto
  have k1: "fetch_off_search NoResponse = Inl URLError"
    by simp
  have k2: "\<forall>status body. status < 200 \<or> 300 \<le> status
            \<longrightarrow> fetch_off_search (Response status body) = Inl RuntimeError"
    by simp
  have k3: "\<forall>status. 200 \<le> status \<and> status < 300
            \<longrightarrow> fetch_off_search (Response status None) = Inl ValueError"
    by simp
  have k4: "\<forall>status data. 200 \<le> status \<and> status < 300 \<and> (\<nexists>kvs. data = JDict kvs)
            \<longrightarrow> fetch_off_search (Response status (Some data)) = Inl AttributeError"
    using shape by blast
  show ?thesis
    by (intro conjI head mid same[unfolded core_eq] none k1 k2 k3 k4)
qed

text \<open>
  The theorem at work: the second of three terms gets no response; the rows are those of
  the first and the third term, and one warning is printed.
\<close>

theorem failed_query_is_skipped_witness:
  "fetch_off_search NoResponse = Inl URLError
   \<and> fetch_off_search (Response 503 None) = Inl RuntimeError
   \<and> fetch_off_search (Response 200 None) = Inl ValueError
   \<and> fetch_off_search (Response 200 (Some (JList []))) = Inl AttributeError
   \<and> queries_loop excerpt_rt init_state
       [(''q1'', sample_page [sample_record ''X1'' ''Sut'' ''Alfa'']),
        (''q2'', NoResponse),
        (''q3'', sample_page [sample_record ''X2'' ''Ayran'' []])]
     = Inr \<lparr>seen = {''X2'', ''X1''},
            rows = [[''Sut'', ''Sut'', ''Alfa'', ''100.0'', ''0.0'', ''0.0'', ''0.0'', ''other''],
                    [''Ayran'', ''Ayran'', [], ''100.0'', ''0.0'', ''0.0'', ''0.0'', ''other'']],
            printed = [Warn ''q2'' URLError]\<rparr>
   \<and> queries_loop excerpt_rt init_state
       [(''q1'', sample_page [sample_record ''X1'' ''Sut'' ''Alfa'']),
        (''q3'', sample_page [sample_record ''X2'' ''Ayran'' []])]
     = Inr \<lparr>seen = {''X2'', ''X1''},
            rows = [[''Sut'', ''Sut'', ''Alfa'', ''100.0'', ''0.0'', ''0.0'', ''0.0'', ''other''],
                    [''Ayran'', ''Ayran'', [], ''100.0'', ''0.0'', ''0.0'', ''0.0'', ''other'']],
            printed = []\<rparr>"
proof -
  have fail: "fetch_off_search NoResponse = Inl URLError" by simp
  have pre: "queries_loop excerpt_rt init_state
       [(''q1'', sample_page [sample_record ''X1'' ''Sut'' ''Alfa''])]
     = Inr \<lparr>seen = {''X1''},
            rows = [[''Sut'', ''Sut'', ''Alfa'', ''100.0'', ''0.0'', ''0.0'', ''0.0'', ''other'']],
            printed = []\<rparr>"
    by code_simp
  have post: "queries_loop excerpt_rt \<lparr>seen = {''X1''},
            rows = [[''Sut'', ''Sut'', ''Alfa'', ''100.0'', ''0.0'', ''0.0'', ''0.0'', ''other'']],
            printed = [Warn ''q2'' URLError]\<rparr>
       [(''q3'', sample_page [sample_record ''X2'' ''Ayran'' []])]
     = Inr \<lparr>seen = {''X2'', ''X1''},
            rows = [[''Sut'', ''Sut'', ''Alfa'', ''100.0'', ''0.0'', ''0.0'', ''0.0'', ''other''],
                    [''Ayran'', ''Ayran'', [], ''100.0'', ''0.0'', ''0.0'', ''0.0'', ''other'']],
            printed = [Warn ''q2'' URLError]\<rparr>"
    by code_simp
  have without: "queries_loop excerpt_rt init_state
       [(''q1'', sample_page [sample_record ''X1'' ''Sut'' ''Alfa'']),
        (''q3'', sample_page [sample_record ''X2'' ''Ayran'' []])]
     = Inr \<lparr>seen = {''X2'', ''X1''},
            rows = [[''Sut'', ''Sut'', ''Alfa'', ''100.0'', ''0.0'', ''0.0'', ''0.0'', ''other''],
                    [''Ayran'', ''Ayran'', [], ''100.0'', ''0.0'', ''0.0'', ''0.0'', ''other'']],
            printed = []\<rparr>"
    by code_simp
  have upd: "\<lparr>seen = {''X1''},
            rows = [[''Sut'', ''Sut'', ''Alfa'', ''100.0'', ''0.0'', ''0.0'', ''0.0'', ''other'']],
            printed = ([] :: string event list)\<rparr>
        \<lparr>printed := printed \<lparr>seen = {''X1''},
            rows = [[''Sut'', ''Sut'', ''Alfa'', ''100.0'', ''0.0'', ''0.0'', ''0.0'', ''other'']],
            printed = ([] :: string event list)\<rparr> @ [Warn ''q2'' URLError]\<rparr>
      = \<lparr>seen = {''X1''},
            rows = [[''Sut'', ''Sut'', ''Alfa'', ''100.0'', ''0.0'', ''0.0'', ''0.0'', ''other'']],
            printed = [Warn ''q2'' URLError]\<rparr>"
    by simp
  from failed_query_is_skipped[OF fail, where rt = excerpt_rt and st = init_state
      and pre = "[(''q1'', sample_page [sample_record ''X1'' ''Sut'' ''Alfa''])]" and q = "''q2''"
      and post = "[(''q3'', sample_page [sample_record ''X2'' ''Ayran'' []])]",
      THEN conjunct2, THEN conjunct1]
  have "queries_loop excerpt_rt init_state
       [(''q1'', sample_page [sample_record ''X1'' ''Sut'' ''Alfa'']),
        (''q2'', NoResponse),
        (''q3'', sample_page [sample_record ''X2'' ''Ayran'' []])]
     = Inr \<lparr>seen = {''X2'', ''X1''},
            rows = [[''Sut'', ''Sut'', ''Alfa'', ''100.0'', ''0.0'', ''0.0'', ''0.0'', ''other''],
                    [''Ayran'', ''Ayran'', [], ''100.0'', ''0.0'', ''0.0'', ''0.0'', ''other'']],
            printed = [Warn ''q2'' URLError]\<rparr>"
    by (simp only: append_Cons append_Nil pre sum.case upd post)
  moreover have "fetch_off_search (Response 503 None) = Inl RuntimeError"
    and "fetch_off_search (Response 200 None) = Inl ValueError"
    and "fetch_off_search (Response 200 (Some (JList []))) = Inl AttributeError"
    by simp_all
  ultimately show ?thesis using fail without by simp
qed

text \<open>
  What the theorem does not cover: a body that decodes to a dictionary is passed on
  unchecked.  When its \<^verbatim>\<open>products\<close> value is \<^verbatim>\<open>null\<close> the fetch succeeds, the
  \<^verbatim>\<open>for\<close> loop over it raises outside the \<^verbatim>\<open>try\<close>, and the run ends there.
\<close>

lemma products_null_ends_run:
  "fetch_off_search (Response 200 (Some (JDict [(''products'', JNull)]))) = Inr JNull
   \<and> queries_loop rt st ((q, Response 200 (Some (JDict [(''products'', JNull)]))) # qrs)
       = Inl TypeError"
  by simp

subsection \<open>The tabular writer\<close>

lemma write_csv_ok:
  assumes "path \<notin> unwritable fs"
  shows "write_csv fs path rs
     = Inr (fs\<lparr>files := (files fs)(path \<mapsto> writerow HEADER @ concat (map writerow rs))\<rparr>)"
  using assms by (simp add: write_csv_def open_w_def write_text_def writerows_def)

lemma header_line:
  "writerow HEADER = ''nameEN,nameTR,brand,calories,protein,carbs,fat,category'' @ CRLF"
  by (simp add: writerow_def HEADER_def csv_field_def needs_quote_def dquote_def)

text \<open>
  Claim C9.  Where the destination can be opened, the writer leaves in it the header line
  \<^verbatim>\<open>nameEN,nameTR,brand,calories,protein,carbs,fat,category\<close> followed by one
  record per row in the order of the rows, and nothing of what the file held before;
  other files are untouched.  \<^verbatim>\<open>main\<close> writes the rows of the finished loop this
  way and reports their number.  Neither the header nor the text depends on the locale.
\<close>

theorem tabular_writer:
  "(path \<notin> unwritable fs \<longrightarrow>
      (\<exists>fs'. write_csv fs path rs = Inr fs'
         \<and> files fs' path = Some (writerow HEADER @ concat (map writerow rs))
         \<and> (\<forall>other. other \<noteq> path \<longrightarrow> files fs' other = files fs other)))
   \<and> writerow HEADER = ''nameEN,nameTR,brand,calories,protein,carbs,fat,category'' @ CRLF
   \<and> (queries_loop rt init_state qrs = Inr st \<and> out a \<notin> unwritable fs \<longrightarrow>
      (\<exists>fs'. main rt a qrs fs = Inr (fs', printed st @ [Done (length (rows st)) (out a)])
         \<and> files fs' (out a) = Some (writerow HEADER @ concat (map writerow (rows st)))))"
proof -
  have w: "\<exists>fs'. write_csv fs path rs = Inr fs'
         \<and> files fs' path = Some (writerow HEADER @ concat (map writerow rs))
         \<and> (\<forall>other. other \<noteq> path \<longrightarrow> files fs' other = files fs other)"
    if "path \<notin> unwritable fs"
    using write_csv_ok[OF that, of rs] by simp
  have m: "\<exists>fs'. main rt a qrs fs = Inr (fs', printed st @ [Done (length (rows st)) (out a)])
         \<and> files fs' (out a) = Some (writerow HEADER @ concat (map writerow (rows st)))"
    if "queries_loop rt init_state qrs = Inr st" and "out a \<notin> unwritable fs"
    using that write_csv_ok[OF that(2), of "rows st"] by (simp add: main_def)
  from w m header_line show ?thesis by blast
qed

text \<open>
  The theorem at work: the destination holds old text, and the one row has a comma in its
  name, which is written quoted.
\<close>

theorem tabular_writer_witness:
  "out sample_args \<notin> unwritable sample_fs
   \<and> files sample_fs (out sample_args) = Some ''old text''
   \<and> queries_loop excerpt_rt init_state [(''q1'', sample_page [sample_record ''X1'' ''Sut, tam'' ''Alfa''])]
       = Inr \<lparr>seen = {''X1''},
              rows = [[''Sut, tam'', ''Sut, tam'', ''Alfa'', ''100.0'', ''0.0'', ''0.0'', ''0.0'',
                       ''other'']],
              printed = []\<rparr>
   \<and> map_sum id (\<lambda>r. (files (fst r) (out sample_args), snd r))
        (main excerpt_rt sample_args
           [(''q1'', sample_page [sample_record ''X1'' ''Sut, tam'' ''Alfa''])] sample_fs)
       = Inr (Some (''nameEN,nameTR,brand,calories,protein,carbs,fat,category'' @ CRLF
                @ [dquote] @ ''Sut, tam'' @ [dquote, CHR '','', dquote] @ ''Sut, tam'' @ [dquote]
                @ '',Alfa,100.0,0.0,0.0,0.0,other'' @ CRLF),
              [Done 1 ''Nutrition/foods.csv''])"
proof -
  have wr: "out sample_args \<notin> unwritable sample_fs"
    by (simp add: sample_args_def sample_fs_def)
  have old: "files sample_fs (out sample_args) = Some ''old text''"
    by (simp add: sample_args_def sample_fs_def)
  have run: "queries_loop excerpt_rt init_state
        [(''q1'', sample_page [sample_record ''X1'' ''Sut, tam'' ''Alfa''])]
       = Inr \<lparr>seen = {''X1''},
              rows = [[''Sut, tam'', ''Sut, tam'', ''Alfa'', ''100.0'', ''0.0'', ''0.0'', ''0.0'',
                       ''other'']],
              printed = []\<rparr>"
    by code_simp
  have line: "writerow [''Sut, tam'', ''Sut, tam'', ''Alfa'', ''100.0'', ''0.0'', ''0.0'', ''0.0'',
                       ''other'']
      = [dquote] @ ''Sut, tam'' @ [dquote, CHR '','', dquote] @ ''Sut, tam'' @ [dquote]
                @ '',Alfa,100.0,0.0,0.0,0.0,other'' @ CRLF"
    by code_simp
  note inst = tabular_writer[of "out sample_args" sample_fs "[]" excerpt_rt
      "[(''q1'', sample_page [sample_record ''X1'' ''Sut, tam'' ''Alfa''])]"
      "\<lparr>seen = {''X1''},
              rows = [[''Sut, tam'', ''Sut, tam'', ''Alfa'', ''100.0'', ''0.0'', ''0.0'', ''0.0'',
                       ''other'']],
              printed = []\<rparr>" sample_args]
  from inst[THEN conjunct2, THEN conjunct2, THEN mp, OF conjI[OF run wr]]
  obtain fs' where m: "main excerpt_rt sample_args
           [(''q1'', sample_page [sample_record ''X1'' ''Sut, tam'' ''Alfa''])] sample_fs
        = Inr (fs', [Done 1 (out sample_args)])"
    and f: "files fs' (out sample_args) = Some (writerow HEADER @
          writerow [''Sut, tam'', ''Sut, tam'', ''Alfa'', ''100.0'', ''0.0'', ''0.0'', ''0.0'',
                       ''other''])"
    by auto
  have o: "out sample_args = ''Nutrition/foods.csv''"
    by (simp add: sample_args_def)
  have "map_sum id (\<lambda>r. (files (fst r) (out sample_args), snd r))
        (main excerpt_rt sample_args
           [(''q1'', sample_page [sample_record ''X1'' ''Sut, tam'' ''Alfa''])] sample_fs)
       = Inr (Some (''nameEN,nameTR,brand,calories,protein,carbs,fat,category'' @ CRLF
                @ [dquote] @ ''Sut, tam'' @ [dquote, CHR '','', dquote] @ ''Sut, tam'' @ [dquote]
                @ '',Alfa,100.0,0.0,0.0,0.0,other'' @ CRLF),
              [Done 1 ''Nutrition/foods.csv''])"
    unfolding m by (simp add: f[unfolded o] line header_line o)
  with wr old run show ?thesis by simp
qed

end
